theory Spec2Isabelle
  imports Main
begin

section \<open>JavaScript string primitives used by the deployer\<close>

text \<open>
  Strings are modelled as lists of characters, a character standing for a code unit below
  256. On these \<open>toLowerCase\<close> does what \<open>String.prototype.toLowerCase\<close> does: the letters
  \<open>A\<close> to \<open>Z\<close> (65 to 90) and the upper-case letters of Latin-1 (192 to 222, without the
  multiplication sign 215) move 32 places up, and every other character stays.
  Indices follow JavaScript: \<open>indexOf\<close> and \<open>lastIndexOf\<close> answer \<open>-1\<close> when the pattern is
  absent, and \<open>slice\<close> clamps its bounds and counts a negative bound from the end.
\<close>

primrec startsWith :: "string \<Rightarrow> string \<Rightarrow> bool" where
  "startsWith s [] = True"
| "startsWith s (p # ps) = (case s of [] \<Rightarrow> False | c # cs \<Rightarrow> c = p \<and> startsWith cs ps)"

fun find_first :: "string \<Rightarrow> string \<Rightarrow> nat option" where
  "find_first [] pat = (if pat = [] then Some 0 else None)"
| "find_first (c # cs) pat =
     (if startsWith (c # cs) pat then Some 0 else map_option Suc (find_first cs pat))"

fun find_last :: "string \<Rightarrow> string \<Rightarrow> nat option" where
  "find_last [] pat = (if pat = [] then Some 0 else None)"
| "find_last (c # cs) pat =
     (case find_last cs pat of
        Some i \<Rightarrow> Some (Suc i)
      | None \<Rightarrow> if startsWith (c # cs) pat then Some 0 else None)"

definition indexOf :: "string \<Rightarrow> string \<Rightarrow> int" where
  "indexOf s pat = (case find_first s pat of None \<Rightarrow> -1 | Some i \<Rightarrow> int i)"

definition lastIndexOf :: "string \<Rightarrow> string \<Rightarrow> int" where
  "lastIndexOf s pat = (case find_last s pat of None \<Rightarrow> -1 | Some i \<Rightarrow> int i)"

definition includes_str :: "string \<Rightarrow> string \<Rightarrow> bool" where
  "includes_str s pat = (find_first s pat \<noteq> None)"

definition clamp_index :: "nat \<Rightarrow> int \<Rightarrow> nat" where
  "clamp_index len i = (if i < 0 then nat (max (int len + i) 0) else min (nat i) len)"

definition slice :: "string \<Rightarrow> int \<Rightarrow> int \<Rightarrow> string" where
  "slice s start fin =
     (let lo = clamp_index (length s) start;
          hi = clamp_index (length s) fin
      in if lo \<le> hi then take (hi - lo) (drop lo s) else [])"

definition slice_from :: "string \<Rightarrow> int \<Rightarrow> string" where
  "slice_from s start = drop (clamp_index (length s) start) s"

definition replace_first :: "string \<Rightarrow> string \<Rightarrow> string \<Rightarrow> string" where
  "replace_first s pat rep =
     (case find_first s pat of
        None \<Rightarrow> s
      | Some i \<Rightarrow> take i s @ rep @ drop (i + length pat) s)"

fun split_on :: "char \<Rightarrow> string \<Rightarrow> string list" where
  "split_on d [] = [[]]"
| "split_on d (c # cs) =
     (if c = d then [] # split_on d cs
      else (case split_on d cs of [] \<Rightarrow> [[c]] | l # ls \<Rightarrow> (c # l) # ls))"

definition newline :: char where
  "newline = CHR 0x0A"

definition lower_char :: "char \<Rightarrow> char" where
  "lower_char c =
     (let n = (of_char c :: nat)
      in if (65 \<le> n \<and> n \<le> 90) \<or> (192 \<le> n \<and> n \<le> 214) \<or> (216 \<le> n \<and> n \<le> 222)
         then char_of (n + 32) else c)"

definition toLowerCase :: "string \<Rightarrow> string" where
  "toLowerCase s = map lower_char s"

fun join :: "string \<Rightarrow> string list \<Rightarrow> string" where
  "join sep [] = []"
| "join sep [x] = x"
| "join sep (x # y # ys) = x @ sep @ join sep (y # ys)"


text \<open>
  The pattern \<open>/\/([^\/]*)$/\<close> of \<open>getContractAbi\<close>: the leftmost position holding a slash
  that is followed only by non-slash characters up to the end of the string. The result
  is the text before the match and the captured group \<open>$1\<close>; \<open>None\<close> when nothing matches.
\<close>

fun match_last_component :: "string \<Rightarrow> (string \<times> string) option" where
  "match_last_component [] = None"
| "match_last_component (c # cs) =
     (if c = CHR ''/'' \<and> CHR ''/'' \<notin> set cs then Some ([], cs)
      else map_option (\<lambda>(pre, cap). (c # pre, cap)) (match_last_component cs))"

definition replace_last_component :: "string \<Rightarrow> string" where
  "replace_last_component s =
     (case match_last_component s of
        None \<Rightarrow> s
      | Some (pre, cap) \<Rightarrow> pre @ ''/I'' @ cap)"

section \<open>Command lines handed to the compiler\<close>

text \<open>
  \<open>helpers.ts\<close>, \<open>getContractBytecode\<close>: constructor arguments are optional; when present
  they are joined with one space and follow \<open>-i\<close>. Each argument stands for its JavaScript
  string conversion.
\<close>

definition getContractBytecode_cmd :: "string \<Rightarrow> string list option \<Rightarrow> string" where
  "getContractBytecode_cmd filePath constructorArgs =
     (case constructorArgs of
        None \<Rightarrow> ''huffc '' @ filePath @ '' --bytecode''
      | Some cargs \<Rightarrow> ''huffc '' @ filePath @ '' -i '' @ join '' '' cargs @ '' --bytecode'')"

text \<open>
  \<open>HuffDeployer.ts\<close>, \<open>CompilerArg\<close> and the second \<open>getContractBytecode\<close>. Key and value are
  JavaScript numbers interpolated into a template string; their conversion to text is the
  parameter \<open>str\<close>. The flag string starts as one space as soon as a flag array is given
  (an empty array is truthy), and every flag appends a space, its key and its value.
\<close>

record 'n CompilerArg =
  arg_key :: 'n
  arg_value :: 'n
  arg_full :: bool

definition flag_key :: "('n \<Rightarrow> string) \<Rightarrow> 'n CompilerArg \<Rightarrow> string" where
  "flag_key str arg = (if arg_full arg then ''--'' @ str (arg_key arg) else ''-'' @ str (arg_key arg))"

definition append_flag :: "('n \<Rightarrow> string) \<Rightarrow> string \<Rightarrow> 'n CompilerArg \<Rightarrow> string" where
  "append_flag str acc arg = acc @ '' '' @ flag_key str arg @ '' '' @ str (arg_value arg)"

definition argString :: "('n \<Rightarrow> string) \<Rightarrow> 'n CompilerArg list option \<Rightarrow> string" where
  "argString str compilerArgs =
     (case compilerArgs of
        None \<Rightarrow> []
      | Some args \<Rightarrow> foldl (append_flag str) '' '' args)"

definition getContractBytecode_cmd_flags ::
  "('n \<Rightarrow> string) \<Rightarrow> string \<Rightarrow> string list option \<Rightarrow> 'n CompilerArg list option \<Rightarrow> string" where
  "getContractBytecode_cmd_flags str filePath constructorArgs compilerArgs =
     (case constructorArgs of
        None \<Rightarrow> ''huffc '' @ filePath @ '' --bytecode'' @ argString str compilerArgs
      | Some cargs \<Rightarrow>
          ''huffc '' @ filePath @ '' -i '' @ join '' '' cargs @ '' --bytecode''
            @ argString str compilerArgs)"

section \<open>Paths derived from a source file\<close>

text \<open>The contract name the deploy loop compares with the request (\<open>helpers.ts\<close>, 150-153).\<close>

definition contractName :: "string \<Rightarrow> string" where
  "contractName filePath =
     slice filePath (lastIndexOf filePath ''/'' + 1) (indexOf filePath ''.huff'')"

text \<open>The interface file \<open>getContractAbi\<close> reads (\<open>helpers.ts\<close>, 115-117).\<close>

definition interfaceFilePath :: "string \<Rightarrow> string" where
  "interfaceFilePath filePath = replace_last_component (replace_first filePath ''.huff'' ''.sol'')"

text \<open>The file \<open>clean\<close> unlinks (\<open>HuffDeployer.ts\<close>, 196-201).\<close>

definition clean_path :: "string \<Rightarrow> string" where
  "clean_path filePath =
     (let p = replace_first filePath ''huff'' ''sol'';
          lastSlashIndex = lastIndexOf p ''/''
      in slice p 0 (lastSlashIndex + 1) @ ''I'' @ slice_from p (lastSlashIndex + 1))"

section \<open>Scraping the interface text\<close>

fun abi_loop :: "string list \<Rightarrow> string list \<Rightarrow> string list" where
  "abi_loop [] abi = abi"
| "abi_loop (line # rest) abi =
     abi_loop rest
       (if includes_str line ''function''
        then abi @ [slice line (indexOf line ''function'') (indexOf line '';'')]
        else abi)"

definition scrape_abi :: "string \<Rightarrow> string list" where
  "scrape_abi contractInterface = abi_loop (split_on newline contractInterface) []"

section \<open>The world around a deploy call\<close>

text \<open>
  Everything outside the repository is a parameter: the shell (\<open>exec\<close>, which answers an
  optional error and the standard output and may change files), \<open>glob.sync\<close>, the contract
  factory of the deployment library and the signer list of the runtime. The file system is
  a map from paths to contents. Every subprocess and every file operation of the code is
  appended to a trace, so that the order and the number of the operations can be stated.
\<close>

type_synonym filesystem = "string \<rightharpoonup> string"

datatype failure =
    PluginError string string
  | ExecError string
  | ReadError string
  | LibraryError string
  | JsError string

datatype event =
    Exec string
  | Glob string
  | ReadFile string
  | Unlink string
  | ConsoleError string
  | GetContractFactory "string list" string
  | FactoryDeploy

text \<open>
  The result of an asynchronous function. \<open>Uncaught\<close> is a promise that never settles: the
  exception was thrown inside a callback that Node runs later, outside the promise
  executor, so neither \<open>resolve\<close> nor \<open>reject\<close> is ever called and the awaiting caller is
  never resumed.
\<close>

datatype 'a outcome = Resolved 'a | Rejected failure | Uncaught failure

record state =
  files :: filesystem
  trace :: "event list"

record ('s, 'f, 'c) world =
  run_exec :: "string \<Rightarrow> filesystem \<Rightarrow> (string option \<times> string) \<times> filesystem"
  glob_sync :: "string \<Rightarrow> string list"
  getContractFactory :: "string list \<Rightarrow> string \<Rightarrow> 's option \<Rightarrow> string + 'f"
  factory_deploy :: "'f \<Rightarrow> string + 'c"
  getSigners :: "string + 's list"

definition emit :: "event \<Rightarrow> state \<Rightarrow> state" where
  "emit e st = st\<lparr>trace := trace st @ [e]\<rparr>"

definition exec :: "('s, 'f, 'c) world \<Rightarrow> string \<Rightarrow> state \<Rightarrow> (string option \<times> string) \<times> state" where
  "exec w cmd st =
     (case run_exec w cmd (files st) of
        (r, fs') \<Rightarrow> (r, emit (Exec cmd) (st\<lparr>files := fs'\<rparr>)))"

section \<open>The steps of the pipeline (\<open>helpers.ts\<close>)\<close>

definition huffUrl :: string where
  "huffUrl = ''https://github.com/huff-language/huff-rs''"

text \<open>
  \<open>verifyHuffCompiler\<close>: both errors are thrown inside the callback of \<open>exec\<close>; the \<open>reject\<close>
  function of the promise is never used.
\<close>

definition verifyHuffCompiler :: "('s, 'f, 'c) world \<Rightarrow> state \<Rightarrow> unit outcome \<times> state" where
  "verifyHuffCompiler w st =
     (case exec w ''huffc --version'' st of
        ((err, stdout), st') \<Rightarrow>
          if err \<noteq> None then
            (Uncaught (PluginError ''huff-deployer''
               (''Huff compiler not found. Please install it from '' @ huffUrl)), st')
          else if includes_str stdout ''0.0.'' then
            (Uncaught (PluginError ''huff-deployer''
               (''TS Huff not supported. Please install the Rust compiler from '' @ huffUrl)), st')
          else (Resolved (), st'))"

definition getContractBytecode ::
  "('s, 'f, 'c) world \<Rightarrow> string \<Rightarrow> string list option \<Rightarrow> state \<Rightarrow> string outcome \<times> state" where
  "getContractBytecode w filePath constructorArgs st =
     (case exec w (getContractBytecode_cmd filePath constructorArgs) st of
        ((err, stdout), st') \<Rightarrow>
          (case err of Some e \<Rightarrow> (Rejected (ExecError e), st') | None \<Rightarrow> (Resolved stdout, st')))"

definition returnHuffFiles :: "('s, 'f, 'c) world \<Rightarrow> state \<Rightarrow> string list \<times> state" where
  "returnHuffFiles w st =
     (glob_sync w ''contracts/**/*.huff'', emit (Glob ''contracts/**/*.huff'') st)"

definition generateContractInterface ::
  "('s, 'f, 'c) world \<Rightarrow> string \<Rightarrow> state \<Rightarrow> unit outcome \<times> state" where
  "generateContractInterface w filePath st =
     (case exec w (''huffc '' @ filePath @ '' --interface'') st of
        ((err, stdout), st') \<Rightarrow>
          (case err of Some e \<Rightarrow> (Rejected (ExecError e), st') | None \<Rightarrow> (Resolved (), st')))"

text \<open>\<open>getContractAbi\<close>: \<open>readFileSync\<close> throws when the derived path holds no file.\<close>

definition getContractAbi :: "string \<Rightarrow> state \<Rightarrow> (failure + string list) \<times> state" where
  "getContractAbi filePath st =
     (let st' = emit (ReadFile (interfaceFilePath filePath)) st
      in case files st (interfaceFilePath filePath) of
           None \<Rightarrow> (Inl (ReadError (interfaceFilePath filePath)), st')
         | Some contractInterface \<Rightarrow> (Inr (scrape_abi contractInterface), st'))"

text \<open>
  \<open>clean\<close> (\<open>HuffDeployer.ts\<close>): unlinking a missing file is caught and only logged (the
  text of the system error, which follows the path in the message, is left out).
\<close>

definition clean :: "string \<Rightarrow> state \<Rightarrow> state" where
  "clean filePath st =
     (let p = clean_path filePath;
          st' = emit (Unlink p) st
      in case files st p of
           None \<Rightarrow> emit (ConsoleError (''Error deleting '' @ p)) st'
         | Some _ \<Rightarrow> st'\<lparr>files := (files st)(p := None)\<rparr>)"

text \<open>
  The body of the loop of \<open>deploy\<close> for a file whose name matches (\<open>helpers.ts\<close>, 156-176):
  bytecode, interface, scrape, factory, deployment. The first failure ends the call; only
  a failure of \<open>factory.deploy\<close> is wrapped in a new error that names the target.
\<close>

definition deploy_file ::
  "('s, 'f, 'c) world \<Rightarrow> string \<Rightarrow> 's option \<Rightarrow> string list option \<Rightarrow> string \<Rightarrow> state
     \<Rightarrow> 'c outcome \<times> state" where
  "deploy_file w targetContract signer constructorArgs filePath st =
     (case getContractBytecode w filePath constructorArgs st of
        (Rejected e, st1) \<Rightarrow> (Rejected e, st1)
      | (Uncaught e, st1) \<Rightarrow> (Uncaught e, st1)
      | (Resolved bytecode, st1) \<Rightarrow>
     (case generateContractInterface w filePath st1 of
        (Rejected e, st2) \<Rightarrow> (Rejected e, st2)
      | (Uncaught e, st2) \<Rightarrow> (Uncaught e, st2)
      | (Resolved _, st2) \<Rightarrow>
     (case getContractAbi filePath st2 of
        (Inl e, st3) \<Rightarrow> (Rejected e, st3)
      | (Inr abi, st3) \<Rightarrow>
     (case getContractFactory w abi bytecode signer of
        Inl e \<Rightarrow> (Rejected (LibraryError e), emit (GetContractFactory abi bytecode) st3)
      | Inr factory \<Rightarrow>
     (case factory_deploy w factory of
        Inl e \<Rightarrow>
          (Rejected (JsError (''Error deploying '' @ targetContract @ '': '' @ e)),
           emit FactoryDeploy (emit (GetContractFactory abi bytecode) st3))
      | Inr contract \<Rightarrow>
          (Resolved contract,
           emit FactoryDeploy (emit (GetContractFactory abi bytecode) st3)))))))"

text \<open>The test of the loop (\<open>helpers.ts\<close>, 155).\<close>

definition name_matches :: "string \<Rightarrow> string \<Rightarrow> bool" where
  "name_matches targetContract filePath =
     (toLowerCase targetContract = toLowerCase (contractName filePath))"

fun deploy_loop ::
  "('s, 'f, 'c) world \<Rightarrow> string \<Rightarrow> 's option \<Rightarrow> string list option \<Rightarrow> string list
     \<Rightarrow> 'c option \<Rightarrow> state \<Rightarrow> 'c option outcome \<times> state" where
  "deploy_loop w targetContract signer constructorArgs [] contract st = (Resolved contract, st)"
| "deploy_loop w targetContract signer constructorArgs (filePath # rest) contract st =
     (if name_matches targetContract filePath then
        (case deploy_file w targetContract signer constructorArgs filePath st of
           (Resolved c, st') \<Rightarrow>
             deploy_loop w targetContract signer constructorArgs rest (Some c) st'
         | (Rejected e, st') \<Rightarrow> (Rejected e, st')
         | (Uncaught e, st') \<Rightarrow> (Uncaught e, st'))
      else deploy_loop w targetContract signer constructorArgs rest contract st)"

text \<open>\<open>deploy\<close> of \<open>helpers.ts\<close>.\<close>

definition deploy ::
  "('s, 'f, 'c) world \<Rightarrow> string \<Rightarrow> 's option \<Rightarrow> string list option \<Rightarrow> state
     \<Rightarrow> 'c outcome \<times> state" where
  "deploy w targetContract signer constructorArgs st =
     (case verifyHuffCompiler w st of
        (Rejected e, st0) \<Rightarrow> (Rejected e, st0)
      | (Uncaught e, st0) \<Rightarrow> (Uncaught e, st0)
      | (Resolved _, st0) \<Rightarrow>
     (case returnHuffFiles w st0 of
        (huffFiles, st1) \<Rightarrow>
     (case deploy_loop w targetContract signer constructorArgs huffFiles None st1 of
        (Rejected e, st2) \<Rightarrow> (Rejected e, st2)
      | (Uncaught e, st2) \<Rightarrow> (Uncaught e, st2)
      | (Resolved None, st2) \<Rightarrow>
          (Rejected (PluginError ''HuffDeployer''
             (''Contract '' @ targetContract @ '' not found.'')), st2)
      | (Resolved (Some contract), st2) \<Rightarrow> (Resolved contract, st2))))"

text \<open>
  The public entry point, \<open>HuffDeployer.deploy\<close>: without a signer it takes the first one
  of the runtime (\<open>undefined\<close> when the list is empty) and delegates to \<open>deploy\<close> above.
\<close>

definition HuffDeployer_deploy ::
  "('s, 'f, 'c) world \<Rightarrow> string \<Rightarrow> string list option \<Rightarrow> 's option \<Rightarrow> state
     \<Rightarrow> 'c outcome \<times> state" where
  "HuffDeployer_deploy w targetContract constructorArgs signer st =
     (case signer of
        Some s \<Rightarrow> deploy w targetContract (Some s) constructorArgs st
      | None \<Rightarrow>
          (case getSigners w of
             Inl e \<Rightarrow> (Rejected (LibraryError e), st)
           | Inr signers \<Rightarrow>
               deploy w targetContract (case signers of [] \<Rightarrow> None | s # _ \<Rightarrow> Some s)
                 constructorArgs st))"

section \<open>Notions of the specification\<close>

text \<open>
  The words of a command line as a shell splits it: the non-empty pieces between spaces.
\<close>

definition words_of :: "string \<Rightarrow> string list" where
  "words_of s = filter (\<lambda>t. t \<noteq> []) (split_on (CHR '' '') s)"

text \<open>
  Paths as the specification speaks of them: the basename is the final component, the
  directory is what precedes it (with its slash), the stem is the basename without a
  trailing \<open>.huff\<close>, and a request matches a file when it equals the stem up to case. The
  interface file of a source has the same directory, the stem prefixed with \<open>I\<close>, and the
  extension \<open>.sol\<close>.
\<close>

definition spec_basename :: "string \<Rightarrow> string" where
  "spec_basename p = rev (takeWhile (\<lambda>c. c \<noteq> CHR ''/'') (rev p))"

definition spec_dirname :: "string \<Rightarrow> string" where
  "spec_dirname p = rev (dropWhile (\<lambda>c. c \<noteq> CHR ''/'') (rev p))"

definition has_huff_extension :: "string \<Rightarrow> bool" where
  "has_huff_extension p = (5 \<le> length p \<and> drop (length p - 5) p = ''.huff'')"

definition spec_stem :: "string \<Rightarrow> string" where
  "spec_stem p =
     (if has_huff_extension (spec_basename p)
      then take (length (spec_basename p) - 5) (spec_basename p)
      else spec_basename p)"

definition spec_matches :: "string \<Rightarrow> string \<Rightarrow> bool" where
  "spec_matches targetContract p = (toLowerCase (spec_stem p) = toLowerCase targetContract)"

definition spec_interface_path :: "string \<Rightarrow> string" where
  "spec_interface_path p = spec_dirname p @ ''I'' @ spec_stem p @ ''.sol''"

text \<open>
  A source file path is a result of \<open>glob.sync\<close> for the pattern \<open>contracts/**/*.huff\<close>, the
  only paths the pipeline hands to its functions: it starts with \<open>contracts/\<close>.
\<close>

definition under_contracts :: "string \<Rightarrow> bool" where
  "under_contracts filePath = startsWith filePath ''contracts/''"

text \<open>
  Paths on which the code and the specification agree: \<open>.huff\<close> (respectively \<open>huff\<close>) occurs
  for the first time as the trailing extension.
\<close>

definition huff_extension_only :: "string \<Rightarrow> bool" where
  "huff_extension_only p = (5 \<le> length p \<and> find_first p ''.huff'' = Some (length p - 5))"

definition huff_first_in_extension :: "string \<Rightarrow> bool" where
  "huff_first_in_extension p =
     (has_huff_extension p \<and> find_first p ''huff'' = Some (length p - 4))"

text \<open>
  The interface text as the specification speaks of it: the lines that hold the keyword
  \<open>function\<close>; a line has a terminator after the keyword when a \<open>;\<close> follows the first
  \<open>function\<close>; the fragment of a line runs from the first \<open>function\<close> up to, and not
  including, the next \<open>;\<close>. A string is such a span of a line when it starts at the keyword,
  holds no \<open>;\<close> and is immediately followed by one.
\<close>

definition function_lines :: "string \<Rightarrow> string list" where
  "function_lines contractInterface =
     filter (\<lambda>line. includes_str line ''function'') (split_on newline contractInterface)"

definition has_terminator_after :: "string \<Rightarrow> bool" where
  "has_terminator_after line =
     (case find_first line ''function'' of
        None \<Rightarrow> False
      | Some i \<Rightarrow> CHR '';'' \<in> set (drop i line))"

definition spec_fragment :: "string \<Rightarrow> string" where
  "spec_fragment line =
     (case find_first line ''function'' of
        None \<Rightarrow> []
      | Some i \<Rightarrow> takeWhile (\<lambda>c. c \<noteq> CHR '';'') (drop i line))"

definition is_keyword_span :: "string \<Rightarrow> string \<Rightarrow> bool" where
  "is_keyword_span line frag =
     (case find_first line ''function'' of
        None \<Rightarrow> False
      | Some i \<Rightarrow>
          take (length frag) (drop i line) = frag \<and> CHR '';'' \<notin> set frag
          \<and> take 1 (drop (i + length frag) line) = '';'')"

text \<open>The stronger condition the code needs: the first \<open>;\<close> of the line follows the keyword.\<close>

definition first_terminator_after :: "string \<Rightarrow> bool" where
  "first_terminator_after line =
     (case (find_first line ''function'', find_first line '';'') of
        (Some i, Some j) \<Rightarrow> i < j
      | _ \<Rightarrow> False)"

definition interface_example :: string where
  "interface_example =
     ''interface IToken {'' @ [newline] @
     ''  function balanceOf(address) external view returns (uint256);'' @ [newline] @
     ''  event Transfer(address, address, uint256);'' @ [newline] @
     ''  function transfer(address, uint256) external;'' @ [newline] @
     ''}''"

text \<open>
  The steps of the pipeline that a trace shows: the subprocesses and the deployments. A run
  that goes through the full sequence once per matching file, in discovery order, shows the
  version check followed by bytecode, interface and deployment for each of them.
\<close>

fun is_step :: "event \<Rightarrow> bool" where
  "is_step (Exec cmd) = True"
| "is_step FactoryDeploy = True"
| "is_step e = False"

definition file_steps :: "string list option \<Rightarrow> string \<Rightarrow> event list" where
  "file_steps constructorArgs filePath =
     [Exec (getContractBytecode_cmd filePath constructorArgs),
      Exec (''huffc '' @ filePath @ '' --interface''),
      FactoryDeploy]"

definition expected_steps :: "string \<Rightarrow> string list option \<Rightarrow> string list \<Rightarrow> event list" where
  "expected_steps targetContract constructorArgs huffFiles =
     Exec ''huffc --version'' #
     concat (map (file_steps constructorArgs) (filter (spec_matches targetContract) huffFiles))"

text \<open>
  What the environment is assumed to do, and what the code is observed to do, in the
  statements about files: the compiler does not delete files, and an event is a deletion.
\<close>

definition compiler_keeps_files :: "('s, 'f, 'c) world \<Rightarrow> bool" where
  "compiler_keeps_files w = (\<forall>cmd fs p. p \<in> dom fs \<longrightarrow> p \<in> dom (snd (run_exec w cmd fs)))"

fun is_Unlink :: "event \<Rightarrow> bool" where
  "is_Unlink (Unlink p) = True"
| "is_Unlink e = False"

section \<open>Example worlds\<close>

definition st_empty :: state where
  "st_empty = \<lparr>files = Map.empty, trace = []\<rparr>"

text \<open>No compiler on the path: every command fails.\<close>

definition world_no_compiler :: "(unit, string list \<times> string, string) world" where
  "world_no_compiler =
     \<lparr>run_exec = (\<lambda>cmd fs. ((Some ''huffc: command not found'', []), fs)),
      glob_sync = (\<lambda>pat. [''contracts/Token.huff'']),
      getContractFactory = (\<lambda>abi bytecode signer. Inr (abi, bytecode)),
      factory_deploy = (\<lambda>factory. Inr (''deployed '' @ snd factory)),
      getSigners = Inr [()]\<rparr>"

text \<open>
  A working compiler over a given list of sources: \<open>--interface\<close> writes the file that
  \<open>interface_of\<close> names, holding one declaration; every other command prints \<open>0x60\<close> followed
  by the command, so that bytecodes of different files differ.
\<close>

definition world_with ::
  "string list \<Rightarrow> (string \<Rightarrow> string) \<Rightarrow> (unit, string list \<times> string, string) world" where
  "world_with sources interface_of =
     \<lparr>run_exec = (\<lambda>cmd fs.
        if cmd = ''huffc --version'' then ((None, ''huffc 0.3.2''), fs)
        else case filter (\<lambda>f. cmd = ''huffc '' @ f @ '' --interface'') sources of
               f # _ \<Rightarrow> ((None, []), fs(interface_of f \<mapsto> ''function run() external;''))
             | [] \<Rightarrow> ((None, ''0x60 '' @ cmd), fs)),
      glob_sync = (\<lambda>pat. sources),
      getContractFactory = (\<lambda>abi bytecode signer. Inr (abi, bytecode)),
      factory_deploy = (\<lambda>factory. Inr (''deployed '' @ snd factory)),
      getSigners = Inr [()]\<rparr>"

text \<open>The same world, except that one command fails.\<close>

definition world_broken ::
  "string list \<Rightarrow> (string \<Rightarrow> string) \<Rightarrow> string
     \<Rightarrow> (unit, string list \<times> string, string) world" where
  "world_broken sources interface_of bad =
     (world_with sources interface_of)
       \<lparr>run_exec := (\<lambda>cmd fs.
          if cmd = bad then ((Some ''huffc: compilation failed'', []), fs)
          else run_exec (world_with sources interface_of) cmd fs)\<rparr>"

text \<open>Source lists with two files of the same name up to case.\<close>

definition foo_sources :: "string list" where
  "foo_sources = [''contracts/foo.huff'', ''contracts/other.huff'', ''contracts/FOO.huff'']"

definition twin_sources :: "string list" where
  "twin_sources = [''contracts/foo.huff'', ''contracts/FOO.huff'']"

definition nested_sources :: "string list" where
  "nested_sources = [''contracts/foo.huff'', ''contracts/v1.huff/FOO.huff'']"

section \<open>Facts about the string primitives\<close>

lemma split_on_nonempty: "split_on d s \<noteq> []"
  by (induction s) (auto split: list.splits)

lemma split_on_append: "split_on d (a @ d # b) = split_on d a @ split_on d b"
proof (induction a)
  case Nil
  then show ?case by simp
next
  case (Cons c a)
  then show ?case
    using split_on_nonempty [of d a] by (cases "split_on d a") auto
qed

lemma words_of_append: "words_of (a @ CHR '' '' # b) = words_of a @ words_of b"
  by (simp add: words_of_def split_on_append)

lemma join_Cons: "join sep (x # xs) = x @ concat (map (\<lambda>y. sep @ y) xs)"
  by (induction xs arbitrary: x) simp_all

section \<open>The compiler command line\<close>

lemma foldl_append_flag:
  "foldl (append_flag str) acc args =
   acc @ concat (map (\<lambda>arg. '' '' @ flag_key str arg @ '' '' @ str (arg_value arg)) args)"
  by (induction args arbitrary: acc) (simp_all add: append_flag_def)

text \<open>
  C4, amended. With a constructor-argument list, the command \<open>getContractBytecode\<close> runs is
  \<open>huffc <file> -i <a1 a2 ...> --bytecode\<close>: the arguments in their order, one space between
  neighbours, right after \<open>-i\<close> (an empty list leaves nothing between \<open>-i\<close> and
  \<open>--bytecode\<close>). Without the list the command is \<open>huffc <file> --bytecode\<close>; the file path
  is interpolated as it is, so the words of this command hold \<open>-i\<close> exactly when the words
  of the path do. The variant of \<open>HuffDeployer.ts\<close> builds the same command and appends the
  flag string.
\<close>

theorem constructor_args_follow_input_flag:
  "getContractBytecode_cmd filePath (Some []) = ''huffc '' @ filePath @ '' -i  --bytecode''
   \<and> getContractBytecode_cmd filePath (Some (a # as)) =
       ''huffc '' @ filePath @ '' -i '' @ a @ concat (map (\<lambda>x. '' '' @ x) as) @ '' --bytecode''
   \<and> getContractBytecode_cmd filePath None = ''huffc '' @ filePath @ '' --bytecode''
   \<and> ((''-i'' \<in> set (words_of (getContractBytecode_cmd filePath None)))
        = (''-i'' \<in> set (words_of filePath)))
   \<and> getContractBytecode_cmd_flags str filePath constructorArgs compilerArgs =
       getContractBytecode_cmd filePath constructorArgs @ argString str compilerArgs
   \<and> trace (snd (getContractBytecode w filePath constructorArgs st)) =
       trace st @ [Exec (getContractBytecode_cmd filePath constructorArgs)]"
proof -
  have w: "words_of (''huffc '' @ filePath @ '' --bytecode'') =
           [''huffc''] @ words_of filePath @ [''--bytecode'']"
  proof -
    have "words_of (''huffc'' @ CHR '' '' # (filePath @ CHR '' '' # ''--bytecode'')) =
          words_of ''huffc'' @ words_of filePath @ words_of ''--bytecode''"
      by (simp only: words_of_append)
    moreover have "words_of ''huffc'' = [''huffc'']" "words_of ''--bytecode'' = [''--bytecode'']"
      by (simp_all add: words_of_def)
    ultimately show ?thesis by simp
  qed
  have "(''-i'' \<in> set (words_of (getContractBytecode_cmd filePath None)))
        = (''-i'' \<in> set (words_of filePath))"
    unfolding getContractBytecode_cmd_def option.case w by simp
  moreover have "getContractBytecode_cmd_flags str filePath constructorArgs compilerArgs =
       getContractBytecode_cmd filePath constructorArgs @ argString str compilerArgs"
     by (cases constructorArgs)
       (simp_all add: getContractBytecode_cmd_flags_def getContractBytecode_cmd_def)
  moreover have "trace (snd (getContractBytecode w filePath constructorArgs st)) =
       trace st @ [Exec (getContractBytecode_cmd filePath constructorArgs)]"
    by (simp add: getContractBytecode_def exec_def emit_def split: prod.splits option.splits)
  ultimately show ?thesis
    by (simp add: getContractBytecode_cmd_def join_Cons)
qed

text \<open>
  A path with a space-separated \<open>-i\<close> in a file name is a source file path, and the request
  that names the file selects it: the command without constructor arguments then holds the
  word \<open>-i\<close>.
\<close>

theorem input_flag_in_path_counterexample:
  "under_contracts ''contracts/a -i b.huff''
   \<and> name_matches ''a -i b'' ''contracts/a -i b.huff''
   \<and> getContractBytecode_cmd ''contracts/a -i b.huff'' None
       = ''huffc contracts/a -i b.huff --bytecode''
   \<and> words_of (getContractBytecode_cmd ''contracts/a -i b.huff'' None)
       = [''huffc'', ''contracts/a'', ''-i'', ''b.huff'', ''--bytecode'']
   \<and> ''-i'' \<in> set (words_of (getContractBytecode_cmd ''contracts/a -i b.huff'' None))"
  by code_simp

text \<open>
  C8. Given a flag sequence, the command ends with the flags in sequence order, each
  rendered as a space, \<open>--<key>\<close> when its \<open>full\<close> selector is true and \<open>-<key>\<close> when it is
  false, a space and the value. One more space separates \<open>--bytecode\<close> from the first flag.
\<close>

theorem flags_rendered_in_order:
  "getContractBytecode_cmd_flags str filePath constructorArgs (Some args) =
     getContractBytecode_cmd filePath constructorArgs @ '' '' @
     concat (map (\<lambda>arg. '' '' @ (if arg_full arg then ''--'' else ''-'') @ str (arg_key arg)
                          @ '' '' @ str (arg_value arg)) args)"
proof -
  have "argString str (Some args) = '' '' @
     concat (map (\<lambda>arg. '' '' @ (if arg_full arg then ''--'' else ''-'') @ str (arg_key arg)
                          @ '' '' @ str (arg_value arg)) args)"
  proof -
    have k: "\<And>arg. flag_key str arg = (if arg_full arg then ''--'' else ''-'') @ str (arg_key arg)"
      by (simp add: flag_key_def)
    show ?thesis by (simp add: argString_def foldl_append_flag k)
  qed
  then show ?thesis
    by (cases constructorArgs)
       (simp_all add: getContractBytecode_cmd_flags_def getContractBytecode_cmd_def)
qed

section \<open>The pipeline deletes nothing\<close>

lemma exec_trace: "trace (snd (exec w cmd st)) = trace st @ [Exec cmd]"
  by (simp add: exec_def emit_def split: prod.splits)

lemma exec_files: "files (snd (exec w cmd st)) = snd (run_exec w cmd (files st))"
  by (simp add: exec_def emit_def split: prod.splits)

lemma emit_files [simp]: "files (emit e st) = files st"
  by (simp add: emit_def)

lemma emit_trace [simp]: "trace (emit e st) = trace st @ [e]"
  by (simp add: emit_def)

lemma exec_keeps:
  assumes "exec w cmd st = (r, st')"
  shows "filter is_Unlink (trace st') = filter is_Unlink (trace st)"
    and "compiler_keeps_files w \<Longrightarrow> dom (files st) \<subseteq> dom (files st')"
proof -
  show "filter is_Unlink (trace st') = filter is_Unlink (trace st)"
    using assms exec_trace [of w cmd st] by simp
  show "dom (files st) \<subseteq> dom (files st')" if "compiler_keeps_files w"
  proof -
    have "files st' = snd (run_exec w cmd (files st))"
      using assms exec_files [of w cmd st] by simp
    moreover have "dom (files st) \<subseteq> dom (snd (run_exec w cmd (files st)))"
    proof
      fix p assume "p \<in> dom (files st)"
      with that show "p \<in> dom (snd (run_exec w cmd (files st)))"
        unfolding compiler_keeps_files_def by (elim allE [of _ cmd] allE [of _ "files st"] allE [of _ p]) simp
    qed
    ultimately show ?thesis by simp
  qed
qed

lemma getContractBytecode_keeps:
  assumes "getContractBytecode w f ca st = (r, st')"
  shows "filter is_Unlink (trace st') = filter is_Unlink (trace st)"
    and "compiler_keeps_files w \<Longrightarrow> dom (files st) \<subseteq> dom (files st')"
proof -
  obtain x where "exec w (getContractBytecode_cmd f ca) st = (x, st')"
    using assms by (auto simp: getContractBytecode_def split: prod.splits option.splits)
  then show "filter is_Unlink (trace st') = filter is_Unlink (trace st)"
    and "compiler_keeps_files w \<Longrightarrow> dom (files st) \<subseteq> dom (files st')"
    by (rule exec_keeps)+
qed

lemma generateContractInterface_keeps:
  assumes "generateContractInterface w f st = (r, st')"
  shows "filter is_Unlink (trace st') = filter is_Unlink (trace st)"
    and "compiler_keeps_files w \<Longrightarrow> dom (files st) \<subseteq> dom (files st')"
proof -
  obtain x where "exec w (''huffc '' @ f @ '' --interface'') st = (x, st')"
    using assms by (auto simp: generateContractInterface_def split: prod.splits option.splits)
  then show "filter is_Unlink (trace st') = filter is_Unlink (trace st)"
    and "compiler_keeps_files w \<Longrightarrow> dom (files st) \<subseteq> dom (files st')"
    by (rule exec_keeps)+
qed

lemma getContractAbi_keeps:
  assumes "getContractAbi f st = (r, st')"
  shows "filter is_Unlink (trace st') = filter is_Unlink (trace st)"
    and "files st' = files st"
    and "r = Inr abi \<Longrightarrow> interfaceFilePath f \<in> dom (files st)"
  using assms
  by (auto simp: getContractAbi_def Let_def split: option.splits)

lemma deploy_file_cases:
  assumes "deploy_file w t s ca f st = (r, st')"
  obtains
    (bytecode_failed) r1 where "getContractBytecode w f ca st = (r1, st')" "\<forall>b. r1 \<noteq> Resolved b"
      "\<forall>c. r \<noteq> Resolved c"
  | (interface_failed) b st1 r2 where "getContractBytecode w f ca st = (Resolved b, st1)"
      "generateContractInterface w f st1 = (r2, st')" "\<forall>u. r2 \<noteq> Resolved u"
      "\<forall>c. r \<noteq> Resolved c"
  | (read_failed) b st1 st2 e where "getContractBytecode w f ca st = (Resolved b, st1)"
      "generateContractInterface w f st1 = (Resolved (), st2)"
      "getContractAbi f st2 = (Inl e, st')" "r = Rejected e"
  | (factory_failed) b st1 st2 abi st3 e where "getContractBytecode w f ca st = (Resolved b, st1)"
      "generateContractInterface w f st1 = (Resolved (), st2)"
      "getContractAbi f st2 = (Inr abi, st3)"
      "getContractFactory w abi b s = Inl e"
      "r = Rejected (LibraryError e)" "st' = emit (GetContractFactory abi b) st3"
  | (deploy_failed) b st1 st2 abi st3 fac e where "getContractBytecode w f ca st = (Resolved b, st1)"
      "generateContractInterface w f st1 = (Resolved (), st2)"
      "getContractAbi f st2 = (Inr abi, st3)"
      "getContractFactory w abi b s = Inr fac" "factory_deploy w fac = Inl e"
      "r = Rejected (JsError (''Error deploying '' @ t @ '': '' @ e))"
      "st' = emit FactoryDeploy (emit (GetContractFactory abi b) st3)"
  | (deployed) b st1 st2 abi st3 fac c where "getContractBytecode w f ca st = (Resolved b, st1)"
      "generateContractInterface w f st1 = (Resolved (), st2)"
      "getContractAbi f st2 = (Inr abi, st3)"
      "getContractFactory w abi b s = Inr fac" "factory_deploy w fac = Inr c"
      "r = Resolved c"
      "st' = emit FactoryDeploy (emit (GetContractFactory abi b) st3)"
proof -
  obtain r1 st1 where 1: "getContractBytecode w f ca st = (r1, st1)" by force
  show thesis
  proof (cases r1)
    case (Rejected e)
    with assms 1 bytecode_failed show thesis by (auto simp: deploy_file_def)
  next
    case (Uncaught e)
    with assms 1 bytecode_failed show thesis by (auto simp: deploy_file_def)
  next
    case (Resolved b)
    note r1 = this
    obtain r2 st2 where 2: "generateContractInterface w f st1 = (r2, st2)" by force
    show thesis
    proof (cases r2)
      case (Rejected e)
      with assms 1 r1 2 interface_failed show thesis by (auto simp: deploy_file_def)
    next
      case (Uncaught e)
      with assms 1 r1 2 interface_failed show thesis by (auto simp: deploy_file_def)
    next
      case (Resolved u)
      note r2 = this
      obtain r3 st3 where 3: "getContractAbi f st2 = (r3, st3)" by force
      show thesis
      proof (cases r3)
        case (Inl e)
        with assms 1 r1 2 r2 3 read_failed show thesis by (simp add: deploy_file_def)
      next
        case (Inr abi)
        note r3 = this
        show thesis
        proof (cases "getContractFactory w abi b s")
          case (Inl e)
          with assms 1 r1 2 r2 3 r3 factory_failed show thesis by (simp add: deploy_file_def)
        next
          case (Inr fac)
          note r4 = this
          show thesis
          proof (cases "factory_deploy w fac")
            case (Inl e)
            with assms 1 r1 2 r2 3 r3 r4 deploy_failed show thesis
              by (simp add: deploy_file_def)
          next
            case (Inr c)
            with assms 1 r1 2 r2 3 r3 r4 deployed show thesis
              by (simp add: deploy_file_def)
          qed
        qed
      qed
    qed
  qed
qed

lemma deploy_file_keeps:
  assumes "deploy_file w t s ca f st = (r, st')"
  shows "filter is_Unlink (trace st') = filter is_Unlink (trace st)"
    and "compiler_keeps_files w \<Longrightarrow> dom (files st) \<subseteq> dom (files st')"
    and "r = Resolved c \<Longrightarrow> interfaceFilePath f \<in> dom (files st')"
proof -
  show "filter is_Unlink (trace st') = filter is_Unlink (trace st)"
    using assms
    by (cases rule: deploy_file_cases)
       (simp_all add: getContractBytecode_keeps(1) generateContractInterface_keeps(1)
          getContractAbi_keeps(1))
  show "dom (files st) \<subseteq> dom (files st')" if k: "compiler_keeps_files w"
    using assms
  proof (cases rule: deploy_file_cases)
    case (bytecode_failed r1)
    then show ?thesis using k getContractBytecode_keeps(2) by blast
  next
    case (interface_failed b st1 r2)
    from getContractBytecode_keeps(2) [OF interface_failed(1) k]
      generateContractInterface_keeps(2) [OF interface_failed(2) k]
    show ?thesis by (rule order_trans)
  next
    case (read_failed b st1 st2 e)
    from getContractBytecode_keeps(2) [OF read_failed(1) k]
      generateContractInterface_keeps(2) [OF read_failed(2) k]
    have "dom (files st) \<subseteq> dom (files st2)" by (rule order_trans)
    with getContractAbi_keeps(2) [OF read_failed(3)] show ?thesis by simp
  next
    case (factory_failed b st1 st2 abi st3 e)
    from getContractBytecode_keeps(2) [OF factory_failed(1) k]
      generateContractInterface_keeps(2) [OF factory_failed(2) k]
    have "dom (files st) \<subseteq> dom (files st2)" by (rule order_trans)
    with getContractAbi_keeps(2) [OF factory_failed(3)] factory_failed(6) show ?thesis by simp
  next
    case (deploy_failed b st1 st2 abi st3 fac e)
    from getContractBytecode_keeps(2) [OF deploy_failed(1) k]
      generateContractInterface_keeps(2) [OF deploy_failed(2) k]
    have "dom (files st) \<subseteq> dom (files st2)" by (rule order_trans)
    with getContractAbi_keeps(2) [OF deploy_failed(3)] deploy_failed(7) show ?thesis by simp
  next
    case (deployed b st1 st2 abi st3 fac c)
    from getContractBytecode_keeps(2) [OF deployed(1) k]
      generateContractInterface_keeps(2) [OF deployed(2) k]
    have "dom (files st) \<subseteq> dom (files st2)" by (rule order_trans)
    with getContractAbi_keeps(2) [OF deployed(3)] deployed(7) show ?thesis by simp
  qed
  show "interfaceFilePath f \<in> dom (files st')" if "r = Resolved c"
    using assms
  proof (cases rule: deploy_file_cases)
    case (deployed b st1 st2 abi st3 fac c)
    from getContractAbi_keeps(2,3) [OF deployed(3)] deployed(7) show ?thesis by simp
  qed (use that in simp_all)
qed

lemma deploy_loop_step:
  assumes "deploy_loop w t s ca (g # gs) c0 st = (r, st')"
  shows "(\<not> name_matches t g \<and> deploy_loop w t s ca gs c0 st = (r, st'))
       \<or> (name_matches t g \<and> (\<exists>c1 st1. deploy_file w t s ca g st = (Resolved c1, st1)
              \<and> deploy_loop w t s ca gs (Some c1) st1 = (r, st')))
       \<or> (name_matches t g \<and> (\<exists>r1. deploy_file w t s ca g st = (r1, st')
              \<and> (\<forall>c1. r1 \<noteq> Resolved c1) \<and> (\<forall>c. r \<noteq> Resolved c)))"
proof (cases "name_matches t g")
  case False
  with assms show ?thesis by simp
next
  case True
  obtain r1 st1 where d: "deploy_file w t s ca g st = (r1, st1)" by force
  show ?thesis
  proof (cases r1)
    case (Resolved c1)
    with assms True d show ?thesis by simp
  next
    case (Rejected e)
    with assms True d show ?thesis by auto
  next
    case (Uncaught e)
    with assms True d show ?thesis by auto
  qed
qed

lemma deploy_loop_no_unlink:
  "deploy_loop w t s ca fs c0 st = (r, st') \<Longrightarrow>
   filter is_Unlink (trace st') = filter is_Unlink (trace st)"
proof (induction fs arbitrary: c0 st)
  case Nil
  then show ?case by simp
next
  case (Cons g gs)
  from deploy_loop_step [OF Cons.prems] show ?case
  proof (elim disjE conjE exE)
    assume "deploy_loop w t s ca gs c0 st = (r, st')"
    then show ?thesis by (rule Cons.IH)
  next
    fix c1 st1
    assume d: "deploy_file w t s ca g st = (Resolved c1, st1)"
      and l: "deploy_loop w t s ca gs (Some c1) st1 = (r, st')"
    from Cons.IH [OF l] deploy_file_keeps(1) [OF d] show ?thesis by simp
  next
    fix r1
    assume "deploy_file w t s ca g st = (r1, st')"
    then show ?thesis by (rule deploy_file_keeps(1))
  qed
qed

lemma deploy_loop_dom:
  "deploy_loop w t s ca fs c0 st = (r, st') \<Longrightarrow> compiler_keeps_files w \<Longrightarrow>
   dom (files st) \<subseteq> dom (files st')"
proof (induction fs arbitrary: c0 st)
  case Nil
  then show ?case by simp
next
  case (Cons g gs)
  from deploy_loop_step [OF Cons.prems(1)] show ?case
  proof (elim disjE conjE exE)
    assume "deploy_loop w t s ca gs c0 st = (r, st')"
    then show ?thesis using Cons.prems(2) by (rule Cons.IH)
  next
    fix c1 st1
    assume d: "deploy_file w t s ca g st = (Resolved c1, st1)"
      and l: "deploy_loop w t s ca gs (Some c1) st1 = (r, st')"
    from deploy_file_keeps(2) [OF d Cons.prems(2)] Cons.IH [OF l Cons.prems(2)]
    show ?thesis by (rule order_trans)
  next
    fix r1
    assume "deploy_file w t s ca g st = (r1, st')"
    then show ?thesis using Cons.prems(2) by (rule deploy_file_keeps(2))
  qed
qed

lemma deploy_loop_step_Resolved:
  assumes "deploy_loop w t s ca (g # gs) c0 st = (Resolved c, st')"
  shows "(\<not> name_matches t g \<and> deploy_loop w t s ca gs c0 st = (Resolved c, st'))
       \<or> (name_matches t g \<and> (\<exists>c1 st1. deploy_file w t s ca g st = (Resolved c1, st1)
              \<and> deploy_loop w t s ca gs (Some c1) st1 = (Resolved c, st')))"
  using deploy_loop_step [OF assms] by blast

lemma deploy_loop_interface_kept:
  "deploy_loop w t s ca fs c0 st = (Resolved c, st') \<Longrightarrow> compiler_keeps_files w \<Longrightarrow>
   f \<in> set fs \<Longrightarrow> name_matches t f \<Longrightarrow> interfaceFilePath f \<in> dom (files st')"
proof (induction fs arbitrary: c0 st)
  case Nil
  then show ?case by simp
next
  case (Cons g gs)
  from deploy_loop_step_Resolved [OF Cons.prems(1)] show ?case
  proof (elim disjE conjE exE)
    assume n: "\<not> name_matches t g" and l: "deploy_loop w t s ca gs c0 st = (Resolved c, st')"
    from n Cons.prems(3,4) have "f \<in> set gs" by auto
    with Cons.IH [OF l Cons.prems(2) _ Cons.prems(4)] show ?thesis by simp
  next
    fix c1 st1
    assume d: "deploy_file w t s ca g st = (Resolved c1, st1)"
      and l: "deploy_loop w t s ca gs (Some c1) st1 = (Resolved c, st')"
    show ?thesis
    proof (cases "f = g")
      case True
      from deploy_file_keeps(3) [OF d] have "interfaceFilePath g \<in> dom (files st1)" by simp
      with deploy_loop_dom [OF l Cons.prems(2)] True show ?thesis by blast
    next
      case False
      with Cons.prems(3) have "f \<in> set gs" by simp
      with Cons.IH [OF l Cons.prems(2) _ Cons.prems(4)] show ?thesis by simp
    qed
  qed
qed

lemma verifyHuffCompiler_keeps:
  assumes "verifyHuffCompiler w st = (r, st')"
  shows "filter is_Unlink (trace st') = filter is_Unlink (trace st)"
    and "compiler_keeps_files w \<Longrightarrow> dom (files st) \<subseteq> dom (files st')"
proof -
  obtain x where "exec w ''huffc --version'' st = (x, st')"
    using assms by (auto simp: verifyHuffCompiler_def split: prod.splits if_splits)
  then show "filter is_Unlink (trace st') = filter is_Unlink (trace st)"
    and "compiler_keeps_files w \<Longrightarrow> dom (files st) \<subseteq> dom (files st')"
    by (rule exec_keeps)+
qed

lemma deploy_Resolved:
  assumes "deploy w t s ca st = (Resolved c, st')"
  shows "\<exists>st0. verifyHuffCompiler w st = (Resolved (), st0)
     \<and> deploy_loop w t s ca (glob_sync w ''contracts/**/*.huff'') None
          (emit (Glob ''contracts/**/*.huff'') st0) = (Resolved (Some c), st')"
proof -
  obtain r0 st0 where v: "verifyHuffCompiler w st = (r0, st0)" by force
  obtain r2 st2 where l: "deploy_loop w t s ca (glob_sync w ''contracts/**/*.huff'') None
          (emit (Glob ''contracts/**/*.huff'') st0) = (r2, st2)" by force
  from assms v have r0: "r0 = Resolved ()"
    by (cases r0) (simp_all add: deploy_def)
  from assms v r0 l have "r2 = Resolved (Some c) \<and> st2 = st'"
    by (cases r2) (auto simp: deploy_def returnHuffFiles_def split: option.splits)
  with v r0 l show ?thesis by simp
qed

lemma deploy_no_unlink:
  assumes "deploy w t s ca st = (r, st')"
  shows "filter is_Unlink (trace st') = filter is_Unlink (trace st)"
proof -
  obtain r0 st0 where v: "verifyHuffCompiler w st = (r0, st0)" by force
  obtain r2 st2 where l: "deploy_loop w t s ca (glob_sync w ''contracts/**/*.huff'') None
          (emit (Glob ''contracts/**/*.huff'') st0) = (r2, st2)" by force
  have a: "filter is_Unlink (trace st0) = filter is_Unlink (trace st)"
    using v by (rule verifyHuffCompiler_keeps)
  have b: "filter is_Unlink (trace st2) = filter is_Unlink (trace st0)"
    using deploy_loop_no_unlink [OF l] by simp
  have "st' = st0 \<or> st' = st2"
    using assms v l
    by (cases r0; cases r2) (auto simp: deploy_def returnHuffFiles_def split: option.splits)
  with a b show ?thesis by auto
qed

lemma HuffDeployer_deploy_Resolved:
  assumes "HuffDeployer_deploy w t ca signer st = (Resolved c, st')"
  obtains signer' where "deploy w t signer' ca st = (Resolved c, st')"
proof (cases signer)
  case (Some s)
  with assms that show thesis by (simp add: HuffDeployer_deploy_def)
next
  case None
  note n = this
  show thesis
  proof (cases "getSigners w")
    case (Inl e)
    with assms n show thesis by (simp add: HuffDeployer_deploy_def)
  next
    case (Inr signers)
    with assms n that show thesis by (simp add: HuffDeployer_deploy_def)
  qed
qed

text \<open>
  C9. A successful call of the public entry point deletes nothing: the trace of the call
  holds no unlink. So, provided the compiler itself removes no file, the interface file
  that was read for every file whose name matches is still there when the call returns.
\<close>

theorem interface_file_survives_deploy:
  assumes "HuffDeployer_deploy w targetContract constructorArgs signer st = (Resolved contract, st')"
  shows "filter is_Unlink (trace st') = filter is_Unlink (trace st)
     \<and> (compiler_keeps_files w \<longrightarrow>
          (\<forall>filePath \<in> set (glob_sync w ''contracts/**/*.huff'').
             name_matches targetContract filePath \<longrightarrow>
             interfaceFilePath filePath \<in> dom (files st')))"
proof -
  from assms obtain signer'
    where d: "deploy w targetContract signer' constructorArgs st = (Resolved contract, st')"
    by (rule HuffDeployer_deploy_Resolved)
  from deploy_Resolved [OF d] obtain st0
    where l: "deploy_loop w targetContract signer' constructorArgs
                (glob_sync w ''contracts/**/*.huff'') None
                (emit (Glob ''contracts/**/*.huff'') st0) = (Resolved (Some contract), st')"
    by (elim exE conjE)
  have k: "interfaceFilePath filePath \<in> dom (files st')"
    if "compiler_keeps_files w" "filePath \<in> set (glob_sync w ''contracts/**/*.huff'')"
      "name_matches targetContract filePath" for filePath
    using l that by (rule deploy_loop_interface_kept)
  show ?thesis
  proof (intro conjI impI ballI)
    show "filter is_Unlink (trace st') = filter is_Unlink (trace st)"
      using d by (rule deploy_no_unlink)
  qed (rule k)
qed

section \<open>Runs in the example worlds\<close>

lemma world_with_keeps_files: "compiler_keeps_files (world_with sources interface_of)"
  unfolding compiler_keeps_files_def
proof (intro allI impI)
  fix cmd :: string and fs :: filesystem and p
  assume "p \<in> dom fs"
  then show "p \<in> dom (snd (run_exec (world_with sources interface_of) cmd fs))"
    by (cases "filter (\<lambda>f. cmd = ''huffc '' @ f @ '' --interface'') sources")
       (auto simp: world_with_def)
qed

lemma name_matches_examples:
  "name_matches ''token'' ''contracts/Token.huff''"
  by code_simp


lemma interfaceFilePath_Token: "interfaceFilePath ''contracts/Token.huff'' = ''contracts/IToken.sol''"
  by code_simp

lemma scrape_run: "scrape_abi ''function run() external;'' = [''function run() external'']"
  by code_simp

lemma version_ok: "\<not> includes_str ''huffc 0.3.2'' ''0.0.''"
  by code_simp

lemma deploy_token_run:
  "HuffDeployer_deploy (world_with [''contracts/Token.huff''] interfaceFilePath) ''token'' None None
     st_empty =
   (Resolved ''deployed 0x60 huffc contracts/Token.huff --bytecode'',
    \<lparr>files = [''contracts/IToken.sol'' \<mapsto> ''function run() external;''],
     trace = [Exec ''huffc --version'', Glob ''contracts/**/*.huff'',
       Exec ''huffc contracts/Token.huff --bytecode'',
       Exec ''huffc contracts/Token.huff --interface'',
       ReadFile ''contracts/IToken.sol'',
       GetContractFactory [''function run() external''] ''0x60 huffc contracts/Token.huff --bytecode'',
       FactoryDeploy]\<rparr>)"
  by (simp add: HuffDeployer_deploy_def deploy_def verifyHuffCompiler_def exec_def emit_def
      world_with_def st_empty_def version_ok returnHuffFiles_def name_matches_examples
      deploy_file_def getContractBytecode_def getContractBytecode_cmd_def
      generateContractInterface_def getContractAbi_def interfaceFilePath_Token scrape_run)


lemma world_with_glob: "glob_sync (world_with sources interface_of) pat = sources"
  by (simp add: world_with_def)

lemma trace_st_empty: "trace st_empty = []"
  by (simp add: st_empty_def)

theorem interface_file_survives_deploy_witness:
  "filter is_Unlink (trace (snd (HuffDeployer_deploy
      (world_with [''contracts/Token.huff''] interfaceFilePath) ''token'' None None st_empty))) = []
   \<and> ''contracts/IToken.sol'' \<in> dom (files (snd (HuffDeployer_deploy
      (world_with [''contracts/Token.huff''] interfaceFilePath) ''token'' None None st_empty)))"
proof -
  note t = interface_file_survives_deploy [OF deploy_token_run]
  from t have "filter is_Unlink (trace (snd (HuffDeployer_deploy
      (world_with [''contracts/Token.huff''] interfaceFilePath) ''token'' None None st_empty))) = []"
    by (simp add: deploy_token_run trace_st_empty)
  moreover from t world_with_keeps_files
  have "interfaceFilePath ''contracts/Token.huff'' \<in> dom (files (snd (HuffDeployer_deploy
      (world_with [''contracts/Token.huff''] interfaceFilePath) ''token'' None None st_empty)))"
    by (simp add: deploy_token_run world_with_glob name_matches_examples)
  ultimately show ?thesis by (simp add: interfaceFilePath_Token)
qed

section \<open>A missing compiler\<close>

text \<open>
  C6. When \<open>huffc --version\<close> reports an error, the call does nothing after that command: no
  scan, no read, no deletion. The error of \<open>verifyHuffCompiler\<close>, however, is thrown inside
  the callback of \<open>exec\<close>, so the promise of \<open>deploy\<close> is left pending with an uncaught
  exception instead of being rejected.
\<close>

theorem compiler_unavailable_leaves_promise_pending:
  assumes "fst (fst (run_exec w ''huffc --version'' (files st))) = Some err"
  shows "deploy w targetContract signer constructorArgs st =
     (Uncaught (PluginError ''huff-deployer''
        ''Huff compiler not found. Please install it from https://github.com/huff-language/huff-rs''),
      \<lparr>files = snd (run_exec w ''huffc --version'' (files st)),
       trace = trace st @ [Exec ''huffc --version'']\<rparr>)"
proof -
  obtain e out fs' where r: "run_exec w ''huffc --version'' (files st) = ((e, out), fs')"
    by (metis prod.exhaust)
  with assms have e: "e = Some err" by simp
  have "verifyHuffCompiler w st =
     (Uncaught (PluginError ''huff-deployer''
        (''Huff compiler not found. Please install it from '' @ huffUrl)),
      \<lparr>files = fs', trace = trace st @ [Exec ''huffc --version'']\<rparr>)"
    by (simp add: verifyHuffCompiler_def exec_def emit_def r e)
  then show ?thesis by (simp add: deploy_def r huffUrl_def)
qed

theorem compiler_unavailable_leaves_promise_pending_witness:
  "deploy world_no_compiler ''Token'' None None st_empty =
     (Uncaught (PluginError ''huff-deployer''
        ''Huff compiler not found. Please install it from https://github.com/huff-language/huff-rs''),
      \<lparr>files = Map.empty, trace = [Exec ''huffc --version'']\<rparr>)"
  using compiler_unavailable_leaves_promise_pending
    [of world_no_compiler st_empty "''huffc: command not found''" "''Token''" None None]
  by (simp add: world_no_compiler_def st_empty_def)


section \<open>Facts about searching and paths\<close>

lemma startsWith_iff: "startsWith s p \<longleftrightarrow> (\<exists>r. s = p @ r)"
  by (induction p arbitrary: s) (auto split: list.splits)

lemma startsWith_Cons_drop: "startsWith s (c # p) \<Longrightarrow> startsWith (drop 1 s) p"
  by (cases s) auto

lemma find_first_Some_iff:
  "find_first s pat = Some i \<longleftrightarrow>
     i \<le> length s \<and> startsWith (drop i s) pat \<and> (\<forall>j<i. \<not> startsWith (drop j s) pat)"
proof (induction s arbitrary: i)
  case Nil
  then show ?case by (cases pat) auto
next
  case (Cons c cs)
  show ?case
  proof (cases "startsWith (c # cs) pat")
    case True
    then show ?thesis by (cases i) auto
  next
    case False
    show ?thesis
    proof (cases i)
      case 0
      with False show ?thesis by simp
    next
      case (Suc k)
      have "(\<forall>j<Suc k. \<not> startsWith (drop j (c # cs)) pat) \<longleftrightarrow>
            (\<forall>j<k. \<not> startsWith (drop j cs) pat)"
        using False by (auto simp: less_Suc_eq_0_disj)
      with False Suc Cons.IH [of k] show ?thesis by auto
    qed
  qed
qed

lemma match_last_component_split:
  "CHR ''/'' \<notin> set b \<Longrightarrow> match_last_component (a @ CHR ''/'' # b) = Some (a, b)"
  by (induction a) auto

lemma find_last_none: "c \<notin> set s \<Longrightarrow> find_last s [c] = None"
  by (induction s) (auto split: list.splits)

lemma find_last_split:
  "c \<notin> set b \<Longrightarrow> find_last (a @ c # b) [c] = Some (length a)"
  by (induction a) (auto simp: find_last_none split: list.splits)

lemma spec_basename_split:
  "CHR ''/'' \<notin> set b \<Longrightarrow> spec_basename (a @ CHR ''/'' # b) = b"
proof -
  assume n: "CHR ''/'' \<notin> set b"
  then have "takeWhile (\<lambda>c. c \<noteq> CHR ''/'') (rev b @ CHR ''/'' # rev a) = rev b"
    by (subst takeWhile_append2) auto
  then show ?thesis by (simp add: spec_basename_def)
qed

lemma spec_dirname_split:
  "CHR ''/'' \<notin> set b \<Longrightarrow> spec_dirname (a @ CHR ''/'' # b) = a @ ''/''"
proof -
  assume n: "CHR ''/'' \<notin> set b"
  then have "dropWhile (\<lambda>c. c \<noteq> CHR ''/'') (rev b @ CHR ''/'' # rev a) = CHR ''/'' # rev a"
    by (subst dropWhile_append2) auto
  then show ?thesis by (simp add: spec_dirname_def)
qed


lemma slice_nat:
  "a \<le> b \<Longrightarrow> b \<le> length s \<Longrightarrow> slice s (int a) (int b) = take (b - a) (drop a s)"
  by (simp add: slice_def clamp_index_def Let_def)

lemma slice_from_nat: "slice_from s (int a) = drop a s"
  by (simp add: slice_from_def clamp_index_def min_def)

lemma find_first_drop:
  assumes "find_first s pat = Some i"
  shows "i + length pat \<le> length s" and "take (length pat) (drop i s) = pat"
proof -
  from assms have "startsWith (drop i s) pat" and i: "i \<le> length s"
    by (simp_all add: find_first_Some_iff)
  then obtain r where r: "drop i s = pat @ r" by (auto simp: startsWith_iff)
  then show "take (length pat) (drop i s) = pat" by simp
  from r have "length (drop i s) = length pat + length r" by simp
  with i show "i + length pat \<le> length s" by simp
qed

lemma huff_extension_only_suffix:
  assumes "huff_extension_only p"
  shows "p = take (length p - 5) p @ ''.huff''"
proof -
  from assms have f: "find_first p ''.huff'' = Some (length p - 5)" and l: "5 \<le> length p"
    by (simp_all add: huff_extension_only_def)
  from find_first_drop(2) [OF f] l have "drop (length p - 5) p = ''.huff''" by simp
  then show ?thesis by (metis append_take_drop_id)
qed

lemma huff_path_decompose:
  assumes "huff_extension_only p" "CHR ''/'' \<in> set p"
  obtains d n where "p = d @ CHR ''/'' # n @ ''.huff''" "CHR ''/'' \<notin> set n"
proof -
  let ?q = "take (length p - 5) p"
  have p: "p = ?q @ ''.huff''" using assms(1) by (rule huff_extension_only_suffix)
  have "CHR ''/'' \<in> set ?q"
  proof -
    have "set p = set ?q \<union> set ''.huff''" by (subst p) simp
    with assms(2) show ?thesis by auto
  qed
  then obtain d n where q: "?q = d @ CHR ''/'' # n" "CHR ''/'' \<notin> set n"
    by (auto dest: split_list_last)
  have "p = d @ CHR ''/'' # n @ ''.huff''" by (subst p, subst q) simp
  with q(2) that show thesis by blast
qed

lemma interfaceFilePath_decomposed:
  assumes "p = d @ CHR ''/'' # n @ ''.huff''" "CHR ''/'' \<notin> set n" "huff_extension_only p"
  shows "interfaceFilePath p = d @ ''/I'' @ n @ ''.sol''"
proof -
  from assms(3) have f: "find_first p ''.huff'' = Some (length p - 5)"
    by (simp add: huff_extension_only_def)
  have "replace_first p ''.huff'' ''.sol'' = d @ CHR ''/'' # (n @ ''.sol'')"
    by (simp add: replace_first_def f) (simp add: assms(1))
  moreover have "CHR ''/'' \<notin> set (n @ ''.sol'')" using assms(2) by simp
  ultimately show ?thesis
    by (simp add: interfaceFilePath_def replace_last_component_def match_last_component_split
        del: set_append)
qed

lemma spec_stem_decomposed:
  assumes "CHR ''/'' \<notin> set n"
  shows "spec_stem (d @ CHR ''/'' # n @ ''.huff'') = n"
proof -
  have "CHR ''/'' \<notin> set (n @ ''.huff'')" using assms by simp
  then have "spec_basename (d @ CHR ''/'' # (n @ ''.huff'')) = n @ ''.huff''"
    by (rule spec_basename_split)
  then show ?thesis by (simp add: spec_stem_def has_huff_extension_def)
qed

lemma spec_interface_path_decomposed:
  assumes "CHR ''/'' \<notin> set n"
  shows "spec_interface_path (d @ CHR ''/'' # n @ ''.huff'') = d @ ''/I'' @ n @ ''.sol''"
proof -
  have "CHR ''/'' \<notin> set (n @ ''.huff'')" using assms by simp
  then have "spec_dirname (d @ CHR ''/'' # (n @ ''.huff'')) = d @ ''/''"
    by (rule spec_dirname_split)
  with spec_stem_decomposed [OF assms, of d] show ?thesis
    by (simp add: spec_interface_path_def)
qed

lemma contractName_decomposed:
  assumes "p = d @ CHR ''/'' # n @ ''.huff''" "CHR ''/'' \<notin> set n" "huff_extension_only p"
  shows "contractName p = n"
proof -
  from assms(3) have f: "find_first p ''.huff'' = Some (length p - 5)"
    by (simp add: huff_extension_only_def)
  have "CHR ''/'' \<notin> set (n @ ''.huff'')" using assms(2) by simp
  then have "find_last (d @ CHR ''/'' # (n @ ''.huff'')) ''/'' = Some (length d)"
    by (rule find_last_split)
  then have l: "find_last p ''/'' = Some (length d)" by (simp add: assms(1))
  have len: "length p = length d + length n + 6" by (simp add: assms(1))
  have lo: "lastIndexOf p ''/'' + 1 = int (length d + 1)"
    by (simp add: lastIndexOf_def l)
  have hi: "indexOf p ''.huff'' = int (length d + 1 + length n)"
    by (simp add: indexOf_def f len)
  have "slice p (int (length d + 1)) (int (length d + 1 + length n)) =
        take (length n) (drop (length d + 1) p)"
    by (rule trans [OF slice_nat]) (simp_all add: len)
  also have "\<dots> = n" by (simp add: assms(1))
  finally show ?thesis by (simp only: contractName_def lo hi)
qed


lemma huff_first_in_extension_only:
  assumes "huff_first_in_extension p"
  shows "huff_extension_only p"
proof -
  from assms have len: "5 \<le> length p" and ext: "drop (length p - 5) p = ''.huff''"
    and f: "find_first p ''huff'' = Some (length p - 4)"
    by (simp_all add: huff_first_in_extension_def has_huff_extension_def)
  from f have first: "\<forall>j<length p - 4. \<not> startsWith (drop j p) ''huff''"
    by (simp add: find_first_Some_iff)
  have "find_first p ''.huff'' = Some (length p - 5)"
    unfolding find_first_Some_iff
  proof (intro conjI allI impI)
    show "length p - 5 \<le> length p" by simp
    show "startsWith (drop (length p - 5) p) ''.huff''" by (simp add: ext)
  next
    fix j assume j: "j < length p - 5"
    show "\<not> startsWith (drop j p) ''.huff''"
    proof
      assume "startsWith (drop j p) ''.huff''"
      then have "startsWith (drop 1 (drop j p)) ''huff''" by (rule startsWith_Cons_drop)
      then have "startsWith (drop (Suc j) p) ''huff''" by simp
      moreover from j len have "Suc j < length p - 4" by simp
      ultimately show False using first by blast
    qed
  qed
  with len show ?thesis by (simp add: huff_extension_only_def)
qed

lemma clean_path_decomposed:
  assumes "p = d @ CHR ''/'' # n @ ''.huff''" "CHR ''/'' \<notin> set n" "huff_first_in_extension p"
  shows "clean_path p = d @ ''/I'' @ n @ ''.sol''"
proof -
  let ?q = "d @ CHR ''/'' # (n @ ''.sol'')"
  from assms(3) have f: "find_first p ''huff'' = Some (length p - 4)"
    by (simp add: huff_first_in_extension_def)
  have r: "replace_first p ''huff'' ''sol'' = ?q"
    by (simp add: replace_first_def f) (simp add: assms(1))
  have "CHR ''/'' \<notin> set (n @ ''.sol'')" using assms(2) by simp
  then have "find_last ?q ''/'' = Some (length d)" by (rule find_last_split)
  then have l: "lastIndexOf ?q ''/'' + 1 = int (length d + 1)" by (simp add: lastIndexOf_def)
  have a: "slice ?q 0 (int (length d + 1)) = d @ ''/''"
    using slice_nat [of 0 "length d + 1" ?q] by simp
  have b: "slice_from ?q (int (length d + 1)) = n @ ''.sol''"
    by (simp only: slice_from_nat) simp
  show ?thesis
    unfolding clean_path_def r Let_def l a b by simp
qed

section \<open>The interface file of a source\<close>

text \<open>
  On a path that holds a slash and in which \<open>.huff\<close> occurs for the first time as the
  trailing extension, \<open>getContractAbi\<close> reads the file that the naming convention gives: same
  directory, name prefixed with \<open>I\<close>, \<open>.sol\<close> in place of \<open>.huff\<close>.
\<close>

lemma under_contracts_slash: "under_contracts p \<Longrightarrow> CHR ''/'' \<in> set p"
  by (auto simp: under_contracts_def startsWith_iff)

lemma interfaceFilePath_plain:
  assumes "CHR ''/'' \<in> set filePath" and "huff_extension_only filePath"
  shows "interfaceFilePath filePath = spec_interface_path filePath
     \<and> trace (snd (getContractAbi filePath st)) = trace st @ [ReadFile (spec_interface_path filePath)]"
proof -
  from assms(2,1) obtain d n where p: "filePath = d @ CHR ''/'' # n @ ''.huff''"
    and n: "CHR ''/'' \<notin> set n"
    by (rule huff_path_decompose)
  have e: "interfaceFilePath filePath = spec_interface_path filePath"
    using interfaceFilePath_decomposed [OF p n assms(2)] spec_interface_path_decomposed [OF n, of d]
    by (simp add: p)
  have "trace (snd (getContractAbi filePath st)) = trace st @ [ReadFile (interfaceFilePath filePath)]"
    by (simp add: getContractAbi_def Let_def split: option.splits)
  with e show ?thesis by simp
qed

text \<open>
  C5. \<open>getContractAbi\<close> replaces the first \<open>.huff\<close> of the path, not the extension. The file
  \<open>contracts/Token.huff.huff\<close>, which the request \<open>Token\<close> selects, has the interface file
  \<open>contracts/IToken.huff.sol\<close> by the naming convention; \<open>getContractAbi\<close> reads
  \<open>contracts/IToken.sol.huff\<close> instead and fails although the interface file is there.
\<close>

theorem getContractAbi_misreads_repeated_extension:
  "name_matches ''Token'' ''contracts/Token.huff.huff''
   \<and> spec_interface_path ''contracts/Token.huff.huff'' = ''contracts/IToken.huff.sol''
   \<and> interfaceFilePath ''contracts/Token.huff.huff'' = ''contracts/IToken.sol.huff''
   \<and> fst (getContractAbi ''contracts/Token.huff.huff''
         \<lparr>files = [''contracts/IToken.huff.sol'' \<mapsto> interface_example], trace = []\<rparr>)
       = Inl (ReadError ''contracts/IToken.sol.huff'')
   \<and> trace (snd (getContractAbi ''contracts/Token.huff.huff''
         \<lparr>files = [''contracts/IToken.huff.sol'' \<mapsto> interface_example], trace = []\<rparr>))
       = [ReadFile ''contracts/IToken.sol.huff'']"
  by code_simp

text \<open>
  C10. For every source file path in which \<open>huff\<close> occurs for the first time in the
  trailing \<open>.huff\<close>, the path \<open>clean\<close> unlinks is the path \<open>getContractAbi\<close> reads: same
  directory, name prefixed with \<open>I\<close>, extension \<open>.sol\<close>.
\<close>

theorem clean_unlinks_interface_file:
  assumes "under_contracts filePath" and "huff_first_in_extension filePath"
  shows "clean_path filePath = interfaceFilePath filePath
     \<and> clean_path filePath = spec_interface_path filePath
     \<and> take (Suc (length (trace st))) (trace (clean filePath st))
         = trace st @ [Unlink (interfaceFilePath filePath)]"
proof -
  have s: "CHR ''/'' \<in> set filePath" using assms(1) by (rule under_contracts_slash)
  have o: "huff_extension_only filePath" using assms(2) by (rule huff_first_in_extension_only)
  from o s obtain d n where p: "filePath = d @ CHR ''/'' # n @ ''.huff''"
    and n: "CHR ''/'' \<notin> set n"
    by (rule huff_path_decompose)
  have e: "clean_path filePath = interfaceFilePath filePath"
    using clean_path_decomposed [OF p n assms(2)] interfaceFilePath_decomposed [OF p n o]
    by simp
  have e': "clean_path filePath = spec_interface_path filePath"
    using clean_path_decomposed [OF p n assms(2)] spec_interface_path_decomposed [OF n, of d]
    by (simp add: p)
  have "take (Suc (length (trace st))) (trace (clean filePath st))
         = trace st @ [Unlink (clean_path filePath)]"
    by (simp add: clean_def Let_def split: option.splits)
  with e e' show ?thesis by simp
qed

theorem clean_unlinks_interface_file_witness:
  "clean_path ''contracts/dir/Token.huff'' = ''contracts/dir/IToken.sol''
   \<and> interfaceFilePath ''contracts/dir/Token.huff'' = ''contracts/dir/IToken.sol''
   \<and> trace (clean ''contracts/dir/Token.huff''
        \<lparr>files = [''contracts/dir/IToken.sol'' \<mapsto> interface_example], trace = []\<rparr>)
       = [Unlink ''contracts/dir/IToken.sol'']"
proof -
  have a: "under_contracts ''contracts/dir/Token.huff''" by code_simp
  have b: "huff_first_in_extension ''contracts/dir/Token.huff''" by code_simp
  have c: "spec_interface_path ''contracts/dir/Token.huff'' = ''contracts/dir/IToken.sol''"
    by code_simp
  note t = clean_unlinks_interface_file [OF a b, of st_empty, unfolded c]
  from t have 1: "clean_path ''contracts/dir/Token.huff'' = ''contracts/dir/IToken.sol''"
    by (elim conjE)
  from t have 2: "clean_path ''contracts/dir/Token.huff''
      = interfaceFilePath ''contracts/dir/Token.huff''"
    by (elim conjE)
  have 3: "trace (clean ''contracts/dir/Token.huff''
        \<lparr>files = [''contracts/dir/IToken.sol'' \<mapsto> interface_example], trace = []\<rparr>)
       = [Unlink ''contracts/dir/IToken.sol'']"
    by (simp add: clean_def Let_def 1)
  from 1 2 3 show ?thesis by simp
qed

section \<open>Scraping function signatures\<close>

lemma abi_loop_closed:
  "abi_loop lines abi =
     abi @ map (\<lambda>line. slice line (indexOf line ''function'') (indexOf line '';''))
             (filter (\<lambda>line. includes_str line ''function'') lines)"
  by (induction lines arbitrary: abi) simp_all

lemma find_first_char:
  "find_first s [c] =
     (if c \<in> set s then Some (length (takeWhile (\<lambda>x. x \<noteq> c) s)) else None)"
  by (induction s) (auto split: list.splits)

lemma length_takeWhile_mem:
  "c \<in> set s \<Longrightarrow> length (takeWhile (\<lambda>x. x \<noteq> c) s) < length s"
  by (induction s) auto

lemma takeWhile_dropWhile_nil: "takeWhile P (dropWhile P xs) = []"
  by (induction xs) auto

lemma takeWhile_drop:
  assumes "i \<le> length (takeWhile P xs)"
  shows "takeWhile P (drop i xs) = drop i (takeWhile P xs)"
proof -
  have "drop i (takeWhile P xs @ dropWhile P xs) = drop i (takeWhile P xs) @ dropWhile P xs"
    using assms by (simp del: takeWhile_dropWhile_id)
  then have "takeWhile P (drop i xs) = takeWhile P (drop i (takeWhile P xs) @ dropWhile P xs)"
    by simp
  also have "\<dots> = drop i (takeWhile P xs) @ takeWhile P (dropWhile P xs)"
    by (rule takeWhile_append2) (auto dest: in_set_dropD set_takeWhileD)
  finally show ?thesis by (simp add: takeWhile_dropWhile_nil)
qed

lemma fragment_of_line:
  assumes "first_terminator_after line"
  shows "slice line (indexOf line ''function'') (indexOf line '';'') = spec_fragment line"
    and "is_keyword_span line (spec_fragment line)"
proof -
  from assms obtain i j where i: "find_first line ''function'' = Some i"
    and j: "find_first line '';'' = Some j" and ij: "i < j"
    by (auto simp: first_terminator_after_def split: option.splits)
  let ?P = "\<lambda>c. c \<noteq> CHR '';''"
  from j have mem: "CHR '';'' \<in> set line" and jl: "j = length (takeWhile ?P line)"
    by (auto simp: find_first_char split: if_splits)
  have jlen: "j < length line"
    using mem jl by (simp add: length_takeWhile_mem)
  have tw: "takeWhile ?P line = take j line"
    unfolding jl by (rule takeWhile_eq_take)
  have frag: "spec_fragment line = take (j - i) (drop i line)"
  proof -
    have "takeWhile ?P (drop i line) = drop i (takeWhile ?P line)"
      using ij jl by (intro takeWhile_drop) simp
    then show ?thesis by (simp add: spec_fragment_def i tw drop_take)
  qed
  have "slice line (int i) (int j) = take (j - i) (drop i line)"
    using ij jlen by (intro slice_nat) simp_all
  with frag show "slice line (indexOf line ''function'') (indexOf line '';'') = spec_fragment line"
    by (simp add: indexOf_def i j)
  have len: "length (spec_fragment line) = j - i"
    using frag ij jlen by simp
  have "line ! j = CHR '';''"
  proof -
    have "\<not> ?P (line ! length (takeWhile ?P line))"
      using jlen jl by (intro nth_length_takeWhile) simp
    then show ?thesis by (simp add: jl)
  qed
  then have "take 1 (drop j line) = '';''"
    using jlen by (simp add: Cons_nth_drop_Suc [symmetric])
  moreover have "CHR '';'' \<notin> set (spec_fragment line)"
    by (auto simp: spec_fragment_def i dest: set_takeWhileD)
  moreover have "take (length (spec_fragment line)) (drop i line) = spec_fragment line"
    using ij jlen by (simp add: len frag min_def)
  ultimately show "is_keyword_span line (spec_fragment line)"
    using ij by (simp add: is_keyword_span_def i len)
qed


lemma scrape_abi_closed:
  "scrape_abi contractInterface =
     map (\<lambda>line. slice line (indexOf line ''function'') (indexOf line '';''))
       (function_lines contractInterface)"
  by (simp add: scrape_abi_def function_lines_def abi_loop_closed)

text \<open>
  C3, amended. When the interface file holds \<open>N\<close> lines with the keyword \<open>function\<close> and, in
  each of them, the first \<open>;\<close> of the line comes after the first \<open>function\<close>, then
  \<open>getContractAbi\<close> returns \<open>N\<close> fragments in line order, each running from the keyword up to,
  and not including, that \<open>;\<close>.
\<close>

theorem getContractAbi_fragments:
  assumes "files st (interfaceFilePath filePath) = Some contractInterface"
    and "\<forall>line \<in> set (function_lines contractInterface). first_terminator_after line"
  shows "fst (getContractAbi filePath st) = Inr (map spec_fragment (function_lines contractInterface))
     \<and> length (scrape_abi contractInterface) = length (function_lines contractInterface)
     \<and> (\<forall>k < length (function_lines contractInterface).
           scrape_abi contractInterface ! k = spec_fragment (function_lines contractInterface ! k)
           \<and> is_keyword_span (function_lines contractInterface ! k)
                (scrape_abi contractInterface ! k))"
proof -
  have m: "scrape_abi contractInterface = map spec_fragment (function_lines contractInterface)"
    unfolding scrape_abi_closed
    by (rule map_cong [OF refl]) (use assms(2) in \<open>simp add: fragment_of_line(1)\<close>)
  have "is_keyword_span (function_lines contractInterface ! k)
          (scrape_abi contractInterface ! k)"
    if "k < length (function_lines contractInterface)" for k
  proof -
    from that assms(2) have "first_terminator_after (function_lines contractInterface ! k)"
      by simp
    then show ?thesis using that by (simp add: m fragment_of_line(2))
  qed
  moreover have "fst (getContractAbi filePath st) = Inr (scrape_abi contractInterface)"
    by (simp add: getContractAbi_def Let_def assms(1))
  ultimately show ?thesis by (simp add: m)
qed

lemma interface_example_lines:
  "function_lines interface_example =
     [''  function balanceOf(address) external view returns (uint256);'',
      ''  function transfer(address, uint256) external;'']"
  by code_simp

lemma interface_example_terminated:
  "first_terminator_after ''  function balanceOf(address) external view returns (uint256);''"
  "first_terminator_after ''  function transfer(address, uint256) external;''"
  by code_simp+

lemma interface_example_fragments:
  "spec_fragment ''  function balanceOf(address) external view returns (uint256);''
     = ''function balanceOf(address) external view returns (uint256)''"
  "spec_fragment ''  function transfer(address, uint256) external;''
     = ''function transfer(address, uint256) external''"
  by code_simp+

theorem getContractAbi_fragments_witness:
  "fst (getContractAbi ''contracts/Token.huff''
      \<lparr>files = [''contracts/IToken.sol'' \<mapsto> interface_example], trace = []\<rparr>) =
     Inr [''function balanceOf(address) external view returns (uint256)'',
          ''function transfer(address, uint256) external'']
   \<and> length (scrape_abi interface_example) = 2"
proof -
  have f: "files \<lparr>files = [''contracts/IToken.sol'' \<mapsto> interface_example], trace = []\<rparr>
             (interfaceFilePath ''contracts/Token.huff'') = Some interface_example"
    by (simp add: interfaceFilePath_Token)
  have t: "\<forall>line \<in> set (function_lines interface_example). first_terminator_after line"
    by (simp add: interface_example_lines interface_example_terminated)
  from getContractAbi_fragments [OF f t] show ?thesis
    by (simp add: interface_example_lines interface_example_fragments)
qed

text \<open>
  A terminator somewhere after the keyword is not enough: \<open>slice\<close> ends at the first \<open>;\<close> of
  the whole line, and when that one precedes the keyword the fragment is empty.
\<close>

theorem getContractAbi_fragments_counterexample:
  "function_lines ''a; function f();'' = [''a; function f();'']
   \<and> has_terminator_after ''a; function f();''
   \<and> scrape_abi ''a; function f();'' = [[]]
   \<and> spec_fragment ''a; function f();'' = ''function f()''
   \<and> \<not> is_keyword_span ''a; function f();'' (scrape_abi ''a; function f();'' ! 0)"
  by code_simp


section \<open>Which files a request selects\<close>

lemma exec_trace_eq: "exec w cmd st = (x, st') \<Longrightarrow> trace st' = trace st @ [Exec cmd]"
  using exec_trace [of w cmd st] by simp

lemma getContractBytecode_trace:
  assumes "getContractBytecode w f ca st = (r, st')"
  shows "trace st' = trace st @ [Exec (getContractBytecode_cmd f ca)]"
proof -
  obtain x where "exec w (getContractBytecode_cmd f ca) st = (x, st')"
    using assms by (auto simp: getContractBytecode_def split: prod.splits option.splits)
  then show ?thesis by (rule exec_trace_eq)
qed

lemma generateContractInterface_trace:
  assumes "generateContractInterface w f st = (r, st')"
  shows "trace st' = trace st @ [Exec (''huffc '' @ f @ '' --interface'')]"
proof -
  obtain x where "exec w (''huffc '' @ f @ '' --interface'') st = (x, st')"
    using assms by (auto simp: generateContractInterface_def split: prod.splits option.splits)
  then show ?thesis by (rule exec_trace_eq)
qed

lemma getContractAbi_trace:
  "getContractAbi f st = (r, st') \<Longrightarrow> trace st' = trace st @ [ReadFile (interfaceFilePath f)]"
  by (auto simp: getContractAbi_def Let_def split: option.splits)

lemma deploy_file_Resolved_trace:
  assumes "deploy_file w t s ca f st = (Resolved c, st')"
  shows "\<exists>abi b. trace st' = trace st @
           [Exec (getContractBytecode_cmd f ca), Exec (''huffc '' @ f @ '' --interface''),
            ReadFile (interfaceFilePath f), GetContractFactory abi b, FactoryDeploy]"
  using assms
proof (cases rule: deploy_file_cases)
  case (deployed b st1 st2 abi st3 fac c')
  from getContractBytecode_trace [OF deployed(1)] generateContractInterface_trace [OF deployed(2)]
    getContractAbi_trace [OF deployed(3)] deployed(7)
  show ?thesis by simp
qed simp_all

lemma deploy_file_Resolved_steps:
  assumes "deploy_file w t s ca f st = (Resolved c, st')"
  shows "\<exists>new. trace st' = trace st @ new \<and> filter is_step new = file_steps ca f"
proof -
  from deploy_file_Resolved_trace [OF assms] obtain abi b where
    "trace st' = trace st @
           [Exec (getContractBytecode_cmd f ca), Exec (''huffc '' @ f @ '' --interface''),
            ReadFile (interfaceFilePath f), GetContractFactory abi b, FactoryDeploy]"
    by blast
  then show ?thesis by (simp add: file_steps_def)
qed

lemma deploy_loop_no_match:
  "filter (name_matches t) fs = [] \<Longrightarrow> deploy_loop w t s ca fs c0 st = (Resolved c0, st)"
  by (induction fs) (auto split: if_splits)

lemma deploy_loop_Resolved_steps:
  "deploy_loop w t s ca fs c0 st = (Resolved r, st') \<Longrightarrow>
   \<exists>new. trace st' = trace st @ new
     \<and> filter is_step new = concat (map (file_steps ca) (filter (name_matches t) fs))"
proof (induction fs arbitrary: c0 st)
  case Nil
  then show ?case by simp
next
  case (Cons g gs)
  from deploy_loop_step_Resolved [OF Cons.prems] show ?case
  proof (elim disjE conjE exE)
    assume n: "\<not> name_matches t g" and l: "deploy_loop w t s ca gs c0 st = (Resolved r, st')"
    from Cons.IH [OF l] n show ?thesis by simp
  next
    fix c1 st1
    assume m: "name_matches t g" and d: "deploy_file w t s ca g st = (Resolved c1, st1)"
      and l: "deploy_loop w t s ca gs (Some c1) st1 = (Resolved r, st')"
    from deploy_file_Resolved_steps [OF d] obtain new1
      where 1: "trace st1 = trace st @ new1" "filter is_step new1 = file_steps ca g" by blast
    from Cons.IH [OF l] obtain new2
      where 2: "trace st' = trace st1 @ new2"
        "filter is_step new2 = concat (map (file_steps ca) (filter (name_matches t) gs))" by blast
    have "trace st' = trace st @ (new1 @ new2)" using 1(1) 2(1) by simp
    moreover have "filter is_step (new1 @ new2) =
        concat (map (file_steps ca) (filter (name_matches t) (g # gs)))"
      using 1(2) 2(2) m by simp
    ultimately show ?thesis by blast
  qed
qed

lemma deploy_loop_Resolved_last:
  "deploy_loop w t s ca fs c0 st = (Resolved r, st') \<Longrightarrow> filter (name_matches t) fs \<noteq> [] \<Longrightarrow>
   \<exists>c st_a. r = Some c
     \<and> deploy_file w t s ca (last (filter (name_matches t) fs)) st_a = (Resolved c, st')"
proof (induction fs arbitrary: c0 st)
  case Nil
  then show ?case by simp
next
  case (Cons g gs)
  from deploy_loop_step_Resolved [OF Cons.prems(1)] show ?case
  proof (elim disjE conjE exE)
    assume n: "\<not> name_matches t g" and l: "deploy_loop w t s ca gs c0 st = (Resolved r, st')"
    from n Cons.prems(2) have "filter (name_matches t) gs \<noteq> []" by simp
    from Cons.IH [OF l this] n show ?thesis by simp
  next
    fix c1 st1
    assume m: "name_matches t g" and d: "deploy_file w t s ca g st = (Resolved c1, st1)"
      and l: "deploy_loop w t s ca gs (Some c1) st1 = (Resolved r, st')"
    show ?thesis
    proof (cases "filter (name_matches t) gs = []")
      case True
      from deploy_loop_no_match [OF True, of w s ca "Some c1" st1] l
      have "r = Some c1" "st' = st1" by simp_all
      with d m True show ?thesis by auto
    next
      case False
      from Cons.IH [OF l False] m False show ?thesis by simp
    qed
  qed
qed


lemma lastIndexOf_absent: "c \<notin> set s \<Longrightarrow> lastIndexOf s [c] = -1"
  by (simp add: lastIndexOf_def find_last_none)

lemma spec_basename_no_slash: "CHR ''/'' \<notin> set p \<Longrightarrow> spec_basename p = p"
proof -
  assume "CHR ''/'' \<notin> set p"
  then have "takeWhile (\<lambda>c. c \<noteq> CHR ''/'') (rev p) = rev p"
    by (intro takeWhile_eq_all_conv [THEN iffD2]) auto
  then show ?thesis by (simp only: spec_basename_def rev_rev_ident)
qed

lemma contractName_eq_spec_stem:
  assumes "huff_extension_only p"
  shows "contractName p = spec_stem p"
proof (cases "CHR ''/'' \<in> set p")
  case True
  with assms obtain d n where p: "p = d @ CHR ''/'' # n @ ''.huff''" and n: "CHR ''/'' \<notin> set n"
    by (rule huff_path_decompose)
  from contractName_decomposed [OF p n assms] spec_stem_decomposed [OF n, of d] p
  show ?thesis by simp
next
  case False
  from assms have f: "find_first p ''.huff'' = Some (length p - 5)" and len: "5 \<le> length p"
    by (simp_all add: huff_extension_only_def)
  have suffix: "p = take (length p - 5) p @ ''.huff''"
    using assms by (rule huff_extension_only_suffix)
  have "drop (length p - 5) p = ''.huff''"
    by (subst (2) suffix) (simp add: len)
  then have ext: "has_huff_extension p" using len by (simp add: has_huff_extension_def)
  have "slice p (int 0) (int (length p - 5)) = take (length p - 5 - 0) (drop 0 p)"
    by (rule slice_nat) simp_all
  then have "contractName p = take (length p - 5) p"
    by (simp add: contractName_def lastIndexOf_absent [OF False] indexOf_def f)
  moreover have "spec_stem p = take (length p - 5) p"
    by (simp add: spec_stem_def spec_basename_no_slash [OF False] ext)
  ultimately show ?thesis by simp
qed

lemma name_matches_spec:
  "huff_extension_only p \<Longrightarrow> name_matches t p = spec_matches t p"
  by (auto simp: name_matches_def spec_matches_def contractName_eq_spec_stem)

lemma filter_name_matches_spec:
  assumes "\<forall>p \<in> set fs. huff_extension_only p"
  shows "filter (name_matches t) fs = filter (spec_matches t) fs"
  by (rule filter_cong [OF refl]) (use assms in \<open>simp add: name_matches_spec\<close>)

lemma verifyHuffCompiler_trace:
  assumes "verifyHuffCompiler w st = (r, st')"
  shows "trace st' = trace st @ [Exec ''huffc --version'']"
proof -
  obtain x where "exec w ''huffc --version'' st = (x, st')"
    using assms by (auto simp: verifyHuffCompiler_def split: prod.splits if_splits)
  then show ?thesis by (rule exec_trace_eq)
qed

text \<open>
  C7, amended. When \<open>.huff\<close> occurs in every discovered path only as the trailing extension
  and the call succeeds, the pipeline has run bytecode, interface and deployment once for
  every file whose stem equals the request up to case, in discovery order, and the handle
  returned is the one deployed from the last of these files.
\<close>

theorem last_matching_file_wins:
  assumes "\<forall>p \<in> set (glob_sync w ''contracts/**/*.huff''). huff_extension_only p"
    and "deploy w targetContract signer constructorArgs st = (Resolved contract, st')"
  shows "filter is_step (drop (length (trace st)) (trace st')) =
           expected_steps targetContract constructorArgs (glob_sync w ''contracts/**/*.huff'')
     \<and> filter (spec_matches targetContract) (glob_sync w ''contracts/**/*.huff'') \<noteq> []
     \<and> (\<exists>st_a. deploy_file w targetContract signer constructorArgs
            (last (filter (spec_matches targetContract) (glob_sync w ''contracts/**/*.huff'')))
            st_a = (Resolved contract, st'))"
proof -
  let ?files = "glob_sync w ''contracts/**/*.huff''"
  let ?matches = "filter (spec_matches targetContract) ?files"
  have eq: "filter (name_matches targetContract) ?files = ?matches"
    using assms(1) by (rule filter_name_matches_spec)
  from deploy_Resolved [OF assms(2)] obtain st0
    where v: "verifyHuffCompiler w st = (Resolved (), st0)"
      and l: "deploy_loop w targetContract signer constructorArgs ?files None
                (emit (Glob ''contracts/**/*.huff'') st0) = (Resolved (Some contract), st')"
    by blast
  have t0: "trace (emit (Glob ''contracts/**/*.huff'') st0) =
              trace st @ [Exec ''huffc --version'', Glob ''contracts/**/*.huff'']"
    using verifyHuffCompiler_trace [OF v] by simp
  from deploy_loop_Resolved_steps [OF l] obtain new
    where n: "trace st' = trace (emit (Glob ''contracts/**/*.huff'') st0) @ new"
      and s: "filter is_step new = concat (map (file_steps constructorArgs) ?matches)"
    unfolding eq by blast
  have 1: "filter is_step (drop (length (trace st)) (trace st')) =
           expected_steps targetContract constructorArgs ?files"
  proof -
    have "trace st' = trace st @ ([Exec ''huffc --version'', Glob ''contracts/**/*.huff''] @ new)"
      by (simp only: n t0 append_assoc)
    then have "drop (length (trace st)) (trace st') =
        [Exec ''huffc --version'', Glob ''contracts/**/*.huff''] @ new"
      by (simp del: append_Cons)
    then show ?thesis by (simp add: s expected_steps_def)
  qed
  have 2: "?matches \<noteq> []"
  proof
    assume "?matches = []"
    then have "filter (name_matches targetContract) ?files = []" by (simp add: eq)
    from deploy_loop_no_match [OF this, of w signer constructorArgs None
        "emit (Glob ''contracts/**/*.huff'') st0"] l
    show False by simp
  qed
  then have "filter (name_matches targetContract) ?files \<noteq> []" by (simp add: eq)
  from deploy_loop_Resolved_last [OF l this]
  have 3: "\<exists>st_a. deploy_file w targetContract signer constructorArgs (last ?matches) st_a
             = (Resolved contract, st')"
    unfolding eq by auto
  from 1 2 3 show ?thesis by blast
qed

lemma foo_run:
  "fst (deploy (world_with foo_sources interfaceFilePath) ''Foo'' None None st_empty)
     = Resolved ''deployed 0x60 huffc contracts/FOO.huff --bytecode''"
  by code_simp

lemma foo_plain: "list_all huff_extension_only foo_sources"
  by code_simp

lemma foo_expected:
  "expected_steps ''Foo'' None foo_sources =
     [Exec ''huffc --version'',
      Exec ''huffc contracts/foo.huff --bytecode'', Exec ''huffc contracts/foo.huff --interface'',
      FactoryDeploy,
      Exec ''huffc contracts/FOO.huff --bytecode'', Exec ''huffc contracts/FOO.huff --interface'',
      FactoryDeploy]"
  "last (filter (spec_matches ''Foo'') foo_sources) = ''contracts/FOO.huff''"
  by code_simp+

theorem last_matching_file_wins_witness:
  "fst (deploy (world_with foo_sources interfaceFilePath) ''Foo'' None None st_empty)
     = Resolved ''deployed 0x60 huffc contracts/FOO.huff --bytecode''
   \<and> filter is_step (trace (snd (deploy (world_with foo_sources interfaceFilePath)
         ''Foo'' None None st_empty))) =
     [Exec ''huffc --version'',
      Exec ''huffc contracts/foo.huff --bytecode'', Exec ''huffc contracts/foo.huff --interface'',
      FactoryDeploy,
      Exec ''huffc contracts/FOO.huff --bytecode'', Exec ''huffc contracts/FOO.huff --interface'',
      FactoryDeploy]
   \<and> (\<exists>st_a. deploy_file (world_with foo_sources interfaceFilePath) ''Foo'' None None
         ''contracts/FOO.huff'' st_a =
       (Resolved ''deployed 0x60 huffc contracts/FOO.huff --bytecode'',
        snd (deploy (world_with foo_sources interfaceFilePath) ''Foo'' None None st_empty)))"
proof -
  let ?w = "world_with foo_sources interfaceFilePath"
  have p: "\<forall>p \<in> set (glob_sync ?w ''contracts/**/*.huff''). huff_extension_only p"
    using foo_plain by (simp add: world_with_glob list_all_iff)
  have r: "deploy ?w ''Foo'' None None st_empty =
      (Resolved ''deployed 0x60 huffc contracts/FOO.huff --bytecode'',
       snd (deploy ?w ''Foo'' None None st_empty))"
    using foo_run by (metis prod.collapse)
  from last_matching_file_wins [OF p r] show ?thesis
    by (simp add: foo_run world_with_glob foo_expected trace_st_empty)
qed


text \<open>
  Two restrictions are needed. A failing step ends the call, so the sequence is not run
  for the files after it; and a file below a directory whose name holds \<open>.huff\<close> matches by
  its stem but is skipped by the code, so the handle comes from an earlier file.
\<close>

theorem last_matching_file_wins_counterexample:
  "length (filter (spec_matches ''foo'') twin_sources) = 2
   \<and> fst (deploy (world_broken twin_sources interfaceFilePath ''huffc contracts/foo.huff --bytecode'')
          ''foo'' None None st_empty) = Rejected (ExecError ''huffc: compilation failed'')
   \<and> filter is_step (trace (snd (deploy
          (world_broken twin_sources interfaceFilePath ''huffc contracts/foo.huff --bytecode'')
          ''foo'' None None st_empty))) =
       [Exec ''huffc --version'', Exec ''huffc contracts/foo.huff --bytecode'']
   \<and> filter is_step (trace (snd (deploy
          (world_broken twin_sources interfaceFilePath ''huffc contracts/foo.huff --bytecode'')
          ''foo'' None None st_empty))) \<noteq> expected_steps ''foo'' None twin_sources
   \<and> length (filter (spec_matches ''foo'') nested_sources) = 2
   \<and> last (filter (spec_matches ''foo'') nested_sources) = ''contracts/v1.huff/FOO.huff''
   \<and> fst (deploy (world_with nested_sources spec_interface_path) ''foo'' None None st_empty)
       = Resolved ''deployed 0x60 huffc contracts/foo.huff --bytecode''
   \<and> filter is_step (trace (snd (deploy (world_with nested_sources spec_interface_path)
          ''foo'' None None st_empty))) \<noteq> expected_steps ''foo'' None nested_sources"
  by code_simp

text \<open>
  C1. The name the loop compares ends at the first \<open>.huff\<close> of the path, not at the
  extension: for the file \<open>contracts/Token.huff.huff\<close>, whose stem is \<open>Token.huff\<close>, the
  request \<open>Token\<close> matches no stem and yet the compiler is run on the file, and the call
  does not end with the not-found error.
\<close>

theorem not_found_misses_repeated_extension:
  "\<not> spec_matches ''Token'' ''contracts/Token.huff.huff''
   \<and> fst (deploy (world_with [''contracts/Token.huff.huff''] spec_interface_path)
          ''Token'' None None st_empty) = Rejected (ReadError ''contracts/IToken.sol.huff'')
   \<and> trace (snd (deploy (world_with [''contracts/Token.huff.huff''] spec_interface_path)
          ''Token'' None None st_empty)) =
       [Exec ''huffc --version'', Glob ''contracts/**/*.huff'',
        Exec ''huffc contracts/Token.huff.huff --bytecode'',
        Exec ''huffc contracts/Token.huff.huff --interface'',
        ReadFile ''contracts/IToken.sol.huff'']"
  by code_simp

text \<open>
  C2. For the same reason a single matching file below a directory whose name holds
  \<open>.huff\<close> is not selected: the name computed for it is empty, nothing is compiled and the
  call ends with the not-found error.
\<close>

theorem single_match_missed_under_huff_directory:
  "filter (spec_matches ''Token'') [''contracts/v1.huff/Token.huff'']
     = [''contracts/v1.huff/Token.huff'']
   \<and> contractName ''contracts/v1.huff/Token.huff'' = []
   \<and> fst (deploy (world_with [''contracts/v1.huff/Token.huff''] spec_interface_path)
          ''Token'' None None st_empty)
       = Rejected (PluginError ''HuffDeployer'' ''Contract Token not found.'')
   \<and> trace (snd (deploy (world_with [''contracts/v1.huff/Token.huff''] spec_interface_path)
          ''Token'' None None st_empty)) =
       [Exec ''huffc --version'', Glob ''contracts/**/*.huff'']"
  by code_simp

text \<open>
  On paths where \<open>.huff\<close> occurs only as the trailing extension the code and the
  specification agree on what matches; the casing of the request never matters, and a
  request that matches no file ends with the not-found error right after the scan.
\<close>

lemma name_matches_casing:
  "toLowerCase t = toLowerCase t' \<Longrightarrow> name_matches t p = name_matches t' p"
  by (simp add: name_matches_def)

lemma deploy_not_found:
  assumes "verifyHuffCompiler w st = (Resolved (), st0)"
    and "\<forall>p \<in> set (glob_sync w ''contracts/**/*.huff''). huff_extension_only p"
    and "\<forall>p \<in> set (glob_sync w ''contracts/**/*.huff''). \<not> spec_matches t p"
  shows "deploy w t s ca st =
     (Rejected (PluginError ''HuffDeployer'' (''Contract '' @ t @ '' not found.'')),
      emit (Glob ''contracts/**/*.huff'') st0)"
proof -
  have "filter (spec_matches t) (glob_sync w ''contracts/**/*.huff'') = []"
    using assms(3) by (simp add: filter_empty_conv)
  then have "filter (name_matches t) (glob_sync w ''contracts/**/*.huff'') = []"
    using filter_name_matches_spec [OF assms(2), of t] by simp
  from deploy_loop_no_match [OF this, of w s ca None "emit (Glob ''contracts/**/*.huff'') st0"]
  show ?thesis by (simp add: deploy_def assms(1) returnHuffFiles_def)
qed


end
